theory Spec2Isabelle
  imports Complex_Main "HOL-Library.Word"
begin

section \<open>Strings and their UTF-8 encoding\<close>

text \<open>
  A Python \<^verbatim>\<open>str\<close> is a sequence of Unicode code points; \<^verbatim>\<open>len\<close> counts code points and
  \<^verbatim>\<open>text[:i]\<close> is \<open>take i text\<close>. A code point is a natural number below \<open>0x110000\<close>.
  A \<^verbatim>\<open>bytes\<close> value is a list of 8-bit words.
\<close>

type_synonym cp = nat
type_synonym pystr = "cp list"
type_synonym byte = "8 word"

text \<open>ASCII literals of the source are written as Isabelle strings and embedded.\<close>

definition pys :: "string \<Rightarrow> pystr" where
  "pys s = map of_char s"

text \<open>
  The exceptions the modelled code raises. \<open>ApiError context errcode\<close> is the
  \<^verbatim>\<open>Exception(error_msg)\<close> whose message \<^verbatim>\<open>_handle_api_error\<close> builds from a context and an
  error code; \<open>RequestError\<close> is any exception of \<^verbatim>\<open>requests\<close> or of \<^verbatim>\<open>response.json()\<close>.
\<close>

datatype ctx = TokenCtx | UploadCtx | DraftCtx

datatype error =
    UnicodeEncodeError
  | FileNotFoundError
  | KeyError
  | RequestError
  | ApiError ctx int

text \<open>
  \<^verbatim>\<open>str.encode('utf-8')\<close>: one to four bytes per code point; a surrogate code point
  (\<open>0xD800\<close> to \<open>0xDFFF\<close>) raises \<^verbatim>\<open>UnicodeEncodeError\<close> under the default strict handler.
\<close>

definition encode_cp :: "cp \<Rightarrow> error + byte list" where
  "encode_cp c =
     (if c < 0x80 then Inr [of_nat c]
      else if c < 0x800 then Inr [of_nat (0xC0 + c div 64), of_nat (0x80 + c mod 64)]
      else if c < 0x10000 then
        (if 0xD800 \<le> c \<and> c \<le> 0xDFFF then Inl UnicodeEncodeError
         else Inr [of_nat (0xE0 + c div 4096), of_nat (0x80 + (c div 64) mod 64),
                   of_nat (0x80 + c mod 64)])
      else Inr [of_nat (0xF0 + c div 262144), of_nat (0x80 + (c div 4096) mod 64),
                of_nat (0x80 + (c div 64) mod 64), of_nat (0x80 + c mod 64)])"

fun encode_utf8 :: "pystr \<Rightarrow> error + byte list" where
  "encode_utf8 [] = Inr []"
| "encode_utf8 (c # cs) =
     (case encode_cp c of
        Inl e \<Rightarrow> Inl e
      | Inr bs \<Rightarrow> (case encode_utf8 cs of Inl e \<Rightarrow> Inl e | Inr rest \<Rightarrow> Inr (bs @ rest)))"

section \<open>Field truncation\<close>

text \<open>
  \<^verbatim>\<open>truncate_by_bytes\<close> (publisher.py, nested in \<^verbatim>\<open>create_draft\<close>):
  \<^verbatim>\<open>
    encoded = text.encode('utf-8')
    if len(encoded) <= max_bytes: return text
    for i in range(len(text), 0, -1):
        truncated = text[:i]
        if len(truncated.encode('utf-8')) <= max_bytes: return truncated
    return ""
  \<close>
  The loop counts \<open>i\<close> down from \<open>len(text)\<close> to \<open>1\<close>; \<open>truncate_loop text max_bytes i\<close>
  is the loop from index \<open>i\<close> on.
\<close>

fun truncate_loop :: "pystr \<Rightarrow> int \<Rightarrow> nat \<Rightarrow> error + pystr" where
  "truncate_loop text max_bytes 0 = Inr []"
| "truncate_loop text max_bytes (Suc i) =
     (let truncated = take (Suc i) text in
      case encode_utf8 truncated of
        Inl e \<Rightarrow> Inl e
      | Inr b \<Rightarrow> if int (length b) \<le> max_bytes then Inr truncated
                else truncate_loop text max_bytes i)"

definition truncate_by_bytes :: "pystr \<Rightarrow> int \<Rightarrow> error + pystr" where
  "truncate_by_bytes text max_bytes =
     (case encode_utf8 text of
        Inl e \<Rightarrow> Inl e
      | Inr encoded \<Rightarrow>
          if int (length encoded) \<le> max_bytes then Inr text
          else truncate_loop text max_bytes (length text))"

section \<open>Regular expressions\<close>

text \<open>
  The patterns of publisher.py are matched by Python's \<^verbatim>\<open>re\<close> module, a backtracking
  matcher. They quantify only single characters and character classes, so the syntax
  tree has the quantifiers on classes: \<open>Star c\<close> is the greedy \<^verbatim>\<open>c*\<close>, \<open>Plus c\<close> the greedy
  \<^verbatim>\<open>c+\<close>, \<open>StarLazy c\<close> is \<^verbatim>\<open>c*?\<close>, \<open>Opt r\<close> is \<^verbatim>\<open>r?\<close>, \<open>Group n r\<close> the \<open>n\<close>-th capturing
  group and \<open>NotAhead r\<close> the negative lookahead \<^verbatim>\<open>(?!r)\<close>.
  A class is a list of inclusive ranges, its complement, or \<^verbatim>\<open>\s\<close>.
\<close>

datatype cset = In "(cp \<times> cp) list" | NotIn "(cp \<times> cp) list" | Space

datatype regex =
    Lit pystr
  | Cls cset
  | Star cset
  | Plus cset
  | StarLazy cset
  | Opt regex
  | Alt regex regex
  | Seq regex regex
  | Group nat regex
  | NotAhead regex

text \<open>\<^verbatim>\<open>\s\<close> on a \<^verbatim>\<open>str\<close> pattern: the code points for which \<^verbatim>\<open>str.isspace\<close> holds.\<close>

definition is_space :: "cp \<Rightarrow> bool" where
  "is_space x \<longleftrightarrow>
     (0x09 \<le> x \<and> x \<le> 0x0D) \<or> (0x1C \<le> x \<and> x \<le> 0x20) \<or> x = 0x85 \<or> x = 0xA0
     \<or> x = 0x1680 \<or> (0x2000 \<le> x \<and> x \<le> 0x200A) \<or> x = 0x2028 \<or> x = 0x2029
     \<or> x = 0x202F \<or> x = 0x205F \<or> x = 0x3000"

fun in_ranges :: "(cp \<times> cp) list \<Rightarrow> cp \<Rightarrow> bool" where
  "in_ranges [] x = False"
| "in_ranges ((lo, hi) # rs) x = ((lo \<le> x \<and> x \<le> hi) \<or> in_ranges rs x)"

fun in_cset :: "cset \<Rightarrow> cp \<Rightarrow> bool" where
  "in_cset (In rs) x = in_ranges rs x"
| "in_cset (NotIn rs) x = (\<not> in_ranges rs x)"
| "in_cset Space x = is_space x"

text \<open>
  A literal character under \<^verbatim>\<open>re.IGNORECASE\<close>. The cased literals of the patterns are ASCII
  letters; a text character matches the letter when its simple lower case is the
  letter's, and besides U+0131 matches \<open>i\<close> and U+017F matches \<open>s\<close>. \<open>lower_cp\<close> is the
  simple lower case on the code points that lower to an ASCII letter (\<open>A\<close> to \<open>Z\<close>, U+0130
  and U+212A) and the identity elsewhere.
\<close>

definition lower_cp :: "cp \<Rightarrow> cp" where
  "lower_cp x =
     (if 0x41 \<le> x \<and> x \<le> 0x5A then x + 32
      else if x = 0x130 then 0x69
      else if x = 0x212A then 0x6B
      else x)"

definition lit_eq :: "bool \<Rightarrow> cp \<Rightarrow> cp \<Rightarrow> bool" where
  "lit_eq ic p x \<longleftrightarrow>
     (if ic then lower_cp x = lower_cp p
                 \<or> (lower_cp p = 0x69 \<and> x = 0x131) \<or> (lower_cp p = 0x73 \<and> x = 0x17F)
      else x = p)"

fun lit_rest :: "bool \<Rightarrow> pystr \<Rightarrow> pystr \<Rightarrow> pystr option" where
  "lit_rest ic [] s = Some s"
| "lit_rest ic (p # ps) [] = None"
| "lit_rest ic (p # ps) (x # xs) = (if lit_eq ic p x then lit_rest ic ps xs else None)"

text \<open>
  \<open>stars c s\<close>: the inputs left after \<^verbatim>\<open>c*\<close> has taken a run of characters from the front
  of \<open>s\<close>, the longest run first (the order in which a greedy quantifier backtracks).
\<close>

fun stars :: "cset \<Rightarrow> pystr \<Rightarrow> pystr list" where
  "stars c [] = [[]]"
| "stars c (x # xs) = (if in_cset c x then stars c xs @ [x # xs] else [x # xs])"

text \<open>
  The matcher: \<open>m ic r s g\<close> lists every way \<open>r\<close> can match a prefix of \<open>s\<close>, in the
  order in which backtracking tries them, each as the input left and the groups
  captured so far (group number and text, the latest first). \<open>ic\<close> is \<^verbatim>\<open>re.IGNORECASE\<close>.
  The match Python reports is the first of the list.
\<close>

type_synonym caps = "(nat \<times> pystr) list"

fun m :: "bool \<Rightarrow> regex \<Rightarrow> pystr \<Rightarrow> caps \<Rightarrow> (pystr \<times> caps) list" where
  "m ic (Lit l) s g = (case lit_rest ic l s of None \<Rightarrow> [] | Some s' \<Rightarrow> [(s', g)])"
| "m ic (Cls c) s g = (case s of [] \<Rightarrow> [] | x # xs \<Rightarrow> if in_cset c x then [(xs, g)] else [])"
| "m ic (Star c) s g = map (\<lambda>s'. (s', g)) (stars c s)"
| "m ic (Plus c) s g =
     (case s of [] \<Rightarrow> [] | x # xs \<Rightarrow> if in_cset c x then map (\<lambda>s'. (s', g)) (stars c xs) else [])"
| "m ic (StarLazy c) s g = map (\<lambda>s'. (s', g)) (rev (stars c s))"
| "m ic (Opt r) s g = m ic r s g @ [(s, g)]"
| "m ic (Alt a b) s g = m ic a s g @ m ic b s g"
| "m ic (Seq a b) s g = concat (map (\<lambda>(s', g'). m ic b s' g') (m ic a s g))"
| "m ic (Group n r) s g =
     map (\<lambda>(s', g'). (s', (n, take (length s - length s') s) # g')) (m ic r s g)"
| "m ic (NotAhead r) s g = (if m ic r s g = [] then [(s, g)] else [])"

text \<open>A match object: \<^verbatim>\<open>group(0)\<close> and the numbered groups.\<close>

record rmatch =
  group0 :: pystr
  groups :: caps

definition group :: "rmatch \<Rightarrow> nat \<Rightarrow> pystr" where
  "group mt n = (case map_of (groups mt) n of None \<Rightarrow> [] | Some t \<Rightarrow> t)"

definition match_at :: "bool \<Rightarrow> regex \<Rightarrow> pystr \<Rightarrow> rmatch option" where
  "match_at ic r s =
     (case m ic r s [] of
        [] \<Rightarrow> None
      | (s', g) # _ \<Rightarrow> Some \<lparr>group0 = take (length s - length s') s, groups = g\<rparr>)"

text \<open>
  \<^verbatim>\<open>re.finditer\<close>, the scan behind \<^verbatim>\<open>re.sub\<close>: the text is cut, from the left, into the
  characters no match covers and the matches; the search resumes where a match ends.
  (After an empty match the character at that place is copied and the search moves on;
  no pattern of this program matches the empty string.)
\<close>

datatype seg = Keep cp | Hit rmatch

function scan :: "bool \<Rightarrow> regex \<Rightarrow> pystr \<Rightarrow> seg list" where
  "scan ic r [] = (case match_at ic r [] of None \<Rightarrow> [] | Some mt \<Rightarrow> [Hit mt])"
| "scan ic r (x # xs) =
     (case match_at ic r (x # xs) of
        None \<Rightarrow> Keep x # scan ic r xs
      | Some mt \<Rightarrow>
          if group0 mt = [] then Hit mt # Keep x # scan ic r xs
          else Hit mt # scan ic r (drop (length (group0 mt)) (x # xs)))"
  by pat_completeness auto
termination
  by (relation "measure (\<lambda>(ic, r, s). length s)") auto

text \<open>\<^verbatim>\<open>re.sub(pattern, repl, string)\<close>, with \<open>repl\<close> a function of the match.\<close>

fun seg_text :: "(rmatch \<Rightarrow> pystr) \<Rightarrow> seg \<Rightarrow> pystr" where
  "seg_text repl (Keep x) = [x]"
| "seg_text repl (Hit mt) = repl mt"

definition re_sub :: "bool \<Rightarrow> regex \<Rightarrow> (rmatch \<Rightarrow> pystr) \<Rightarrow> pystr \<Rightarrow> pystr" where
  "re_sub ic r repl s = concat (map (seg_text repl) (scan ic r s))"

text \<open>\<^verbatim>\<open>re.sub(pattern, repl, string, count=1)\<close>: only the leftmost match is replaced.\<close>

fun re_sub1 :: "bool \<Rightarrow> regex \<Rightarrow> (rmatch \<Rightarrow> pystr) \<Rightarrow> pystr \<Rightarrow> pystr" where
  "re_sub1 ic r repl [] = (case match_at ic r [] of None \<Rightarrow> [] | Some mt \<Rightarrow> repl mt)"
| "re_sub1 ic r repl (x # xs) =
     (case match_at ic r (x # xs) of
        None \<Rightarrow> x # re_sub1 ic r repl xs
      | Some mt \<Rightarrow> repl mt @ drop (length (group0 mt)) (x # xs))"

text \<open>
  \<^verbatim>\<open>re.sub\<close> with a callback that has side effects: the callback is called on the matches
  from left to right and the state is threaded through the calls.
\<close>

fun sub_with :: "(rmatch \<Rightarrow> 's \<Rightarrow> pystr \<times> 's) \<Rightarrow> seg list \<Rightarrow> 's \<Rightarrow> pystr \<times> 's" where
  "sub_with f [] w = ([], w)"
| "sub_with f (Keep x # segs) w = (let (out, w') = sub_with f segs w in (x # out, w'))"
| "sub_with f (Hit mt # segs) w =
     (let (r, w1) = f mt w; (out, w2) = sub_with f segs w1 in (r @ out, w2))"

text \<open>Building blocks for writing the patterns down.\<close>

definition cat :: "regex list \<Rightarrow> regex" where
  "cat rs = foldr Seq rs (Lit [])"

definition chr :: "char \<Rightarrow> cp \<times> cp" where
  "chr c = (of_char c, of_char c)"

definition dq :: cp where "dq = 0x22"
definition sq :: cp where "sq = 0x27"

text \<open>\<^verbatim>\<open>[^>]\<close>, \<^verbatim>\<open>["\']\<close>, \<^verbatim>\<open>[^"\']\<close>, \<^verbatim>\<open>[^"]\<close>, \<^verbatim>\<open>[^;]\<close> and \<^verbatim>\<open>[a-z-]\<close>.\<close>

definition not_gt :: cset where "not_gt = NotIn [chr CHR ''>'']"
definition quote :: cset where "quote = In [(dq, dq), (sq, sq)]"
definition not_quote :: cset where "not_quote = NotIn [(dq, dq), (sq, sq)]"
definition not_dq :: cset where "not_dq = NotIn [(dq, dq)]"
definition not_semi :: cset where "not_semi = NotIn [chr CHR '';'']"
definition az_dash :: cset where
  "az_dash = In [(of_char CHR ''a'', of_char CHR ''z''), chr CHR ''-'']"

text \<open>\<^verbatim>\<open>str.startswith\<close> and the substring test \<^verbatim>\<open>p in s\<close>.\<close>

definition startswith :: "pystr \<Rightarrow> pystr \<Rightarrow> bool" where
  "startswith s p \<longleftrightarrow> take (length p) s = p"

fun contains :: "pystr \<Rightarrow> pystr \<Rightarrow> bool" where
  "contains [] p = (p = [])"
| "contains (x # xs) p = (startswith (x # xs) p \<or> contains xs p)"

section \<open>The publisher and its environment\<close>

text \<open>
  The token cache file: absent (\<open>None\<close> in the state), unreadable (opening or
  \<^verbatim>\<open>json.load\<close> raises), or a JSON object whose \<^verbatim>\<open>access_token\<close> is a string and whose
  \<^verbatim>\<open>expires_at\<close> is a number, each possibly missing. Numbers of the clock are reals.
\<close>

datatype cache = Unreadable | Cache (c_access_token: "pystr option") (c_expires_at: "real option")

text \<open>
  Paths whose existence the code tests: the bundled default cover
  (\<^verbatim>\<open>SKILL_ROOT/assets/default_cover.png\<close>) and \<^verbatim>\<open>Path(base_dir) / src\<close>.
\<close>

datatype path = DefaultCover | Under pystr pystr

text \<open>
  The article of the \<^verbatim>\<open>draft/add\<close> payload. The payload's other fields are constants
  (\<^verbatim>\<open>content_source_url\<close> empty, \<^verbatim>\<open>need_open_comment\<close> and \<^verbatim>\<open>only_fans_can_comment\<close> zero).
  \<open>None\<close> is Python's \<^verbatim>\<open>None\<close>.
\<close>

record article =
  a_title :: pystr
  a_author :: pystr
  a_digest :: pystr
  a_content :: pystr
  a_thumb_media_id :: "pystr option"
  a_show_cover_pic :: int

text \<open>
  The requests to the platform: \<^verbatim>\<open>GET /token\<close> with the credentials,
  \<^verbatim>\<open>POST /material/add_material\<close> with a token and a file, \<^verbatim>\<open>POST /draft/add\<close> with a
  token and the article.
\<close>

datatype request =
    GetToken pystr pystr
  | PostImage pystr path
  | PostDraft pystr article

text \<open>
  What comes back: no usable response (\<^verbatim>\<open>requests\<close> or \<^verbatim>\<open>response.json()\<close> raises), or a
  JSON object, of which the keys the code reads are kept, each possibly missing.
\<close>

record fields =
  r_errcode :: "int option"
  r_access_token :: "pystr option"
  r_expires_in :: "real option"
  r_media_id :: "pystr option"
  r_url :: "pystr option"

datatype reply = NoReply | Reply fields

text \<open>Of the console output, the warnings that report a truncated field.\<close>

datatype notice = TitleCharsWarning | TitleBytesWarning | AuthorTruncated | DigestTruncated

text \<open>
  The state a call works on: the publisher object (\<open>self_\<close> fields) and its environment.
  \<open>clock\<close> lists the readings \<^verbatim>\<open>time.time()\<close> gives, \<open>ticks\<close> counts the readings taken.
  \<open>server\<close> answers a request given all requests sent so far, the answered one last;
  \<open>sent\<close> logs the requests in order. \<open>exists_file\<close> is \<^verbatim>\<open>os.path.exists\<close>.
  Writing the cache file and reading an existing image are taken to succeed.
\<close>

record state =
  self_appid :: pystr
  self_appsecret :: pystr
  self_author :: pystr
  self_access_token :: "pystr option"
  cache_file :: "cache option"
  exists_file :: "path \<Rightarrow> bool"
  clock :: "nat \<Rightarrow> real"
  ticks :: nat
  server :: "request list \<Rightarrow> reply"
  sent :: "request list"
  printed :: "notice list"

definition send :: "request \<Rightarrow> state \<Rightarrow> reply \<times> state" where
  "send req w = (server w (sent w @ [req]), w\<lparr>sent := sent w @ [req]\<rparr>)"

definition time_time :: "state \<Rightarrow> real \<times> state" where
  "time_time w = (clock w (ticks w), w\<lparr>ticks := Suc (ticks w)\<rparr>)"

section \<open>Token cache\<close>

text \<open>
  \<^verbatim>\<open>get_access_token\<close> (publisher.py 212-270). \<open>read_cache\<close> is its \<^verbatim>\<open>try\<close> block: the token
  of the cache when the clock reads less than \<^verbatim>\<open>expires_at - 300\<close> (\<^verbatim>\<open>expires_at\<close> defaults
  to 0); a missing \<^verbatim>\<open>access_token\<close> raises \<^verbatim>\<open>KeyError\<close>, which the \<^verbatim>\<open>except\<close> swallows like
  every other exception. \<^verbatim>\<open>_handle_api_error\<close> only builds the message of the exception
  (for code 40164 it also asks IP echo services for the public address; those requests
  go to other hosts and are not logged here).
\<close>

definition read_cache :: "state \<Rightarrow> pystr option \<times> state" where
  "read_cache w =
     (case cache_file w of
        None \<Rightarrow> (None, w)
      | Some Unreadable \<Rightarrow> (None, w)
      | Some (Cache tok expires_at) \<Rightarrow>
          (let (now, w1) = time_time w in
           if now < (case expires_at of None \<Rightarrow> 0 | Some e \<Rightarrow> e) - 300 then (tok, w1)
           else (None, w1)))"

definition fetch_token :: "state \<Rightarrow> (error + pystr) \<times> state" where
  "fetch_token w =
     (let (rep, w1) = send (GetToken (self_appid w) (self_appsecret w)) w in
      case rep of
        NoReply \<Rightarrow> (Inl RequestError, w1)
      | Reply result \<Rightarrow>
          (case r_errcode result of
             Some errcode \<Rightarrow> (Inl (ApiError TokenCtx errcode), w1)
           | None \<Rightarrow>
               (case r_access_token result of
                  None \<Rightarrow> (Inl KeyError, w1)
                | Some access_token \<Rightarrow>
                    (let expires_in = (case r_expires_in result of None \<Rightarrow> 7200 | Some e \<Rightarrow> e);
                         (now, w2) = time_time w1
                     in (Inr access_token,
                         w2\<lparr>cache_file := Some (Cache (Some access_token) (Some (now + expires_in)))\<rparr>)))))"

definition get_access_token :: "bool \<Rightarrow> state \<Rightarrow> (error + pystr) \<times> state" where
  "get_access_token force_refresh w =
     (if \<not> force_refresh \<and> cache_file w \<noteq> None then
        (case read_cache w of
           (Some tok, w1) \<Rightarrow> (Inr tok, w1)
         | (None, w1) \<Rightarrow> fetch_token w1)
      else fetch_token w)"

section \<open>Asset upload\<close>

text \<open>
  \<^verbatim>\<open>upload_image\<close> (publisher.py 272-316) returns \<^verbatim>\<open>media_id\<close>, and with \<^verbatim>\<open>return_url\<close> the pair
  of \<^verbatim>\<open>media_id\<close> and \<^verbatim>\<open>url\<close> (\<^verbatim>\<open>url\<close> defaults to the empty string); the model returns the
  pair and a caller without \<^verbatim>\<open>return_url\<close> takes its first component.
\<close>

definition upload_image :: "path \<Rightarrow> state \<Rightarrow> (error + pystr option \<times> pystr) \<times> state" where
  "upload_image image_path w =
     (if \<not> exists_file w image_path then (Inl FileNotFoundError, w)
      else
        (case get_access_token False w of
           (Inl e, w1) \<Rightarrow> (Inl e, w1)
         | (Inr token, w1) \<Rightarrow>
             (let (rep, w2) = send (PostImage token image_path) w1 in
              case rep of
                NoReply \<Rightarrow> (Inl RequestError, w2)
              | Reply result \<Rightarrow>
                  (case r_errcode result of
                     Some errcode \<Rightarrow>
                       if errcode \<noteq> 0 then (Inl (ApiError UploadCtx errcode), w2)
                       else (Inr (r_media_id result,
                                  case r_url result of None \<Rightarrow> [] | Some u \<Rightarrow> u), w2)
                   | None \<Rightarrow>
                       (Inr (r_media_id result,
                             case r_url result of None \<Rightarrow> [] | Some u \<Rightarrow> u), w2)))))"

section \<open>Content normalisation\<close>

text \<open>
  \<^verbatim>\<open>_remove_cover_image\<close> (publisher.py 318-355). The three cover patterns, matched with
  \<^verbatim>\<open>re.IGNORECASE\<close> and replaced by the empty string one after the other:
  \<^verbatim>\<open><img[^>]*src=["\']cover\.(png|jpg|jpeg|gif)["\'][^>]*>\<close>,
  \<^verbatim>\<open><img[^>]*alt=["\'][^"\']*XX[^"\']*["\'][^>]*>\<close> and the same with \<^verbatim>\<open>title\<close>, where \<^verbatim>\<open>XX\<close>
  stands for the two code points U+5C01 U+9762 (the word for cover); then the first
  \<^verbatim>\<open>(<!--[^>]*YY[^>]*-->)\s*<img[^>]*>\<close> is replaced by its group 1, \<^verbatim>\<open>YY\<close> being
  U+6807 U+9898 (the word for title).
\<close>

definition cover_word :: pystr where "cover_word = [0x5C01, 0x9762]"
definition title_word :: pystr where "title_word = [0x6807, 0x9898]"

definition cover_src_pattern :: regex where
  "cover_src_pattern =
     cat [Lit (pys ''<img''), Star not_gt, Lit (pys ''src=''), Cls quote, Lit (pys ''cover.''),
          Group 1 (Alt (Lit (pys ''png'')) (Alt (Lit (pys ''jpg''))
                     (Alt (Lit (pys ''jpeg'')) (Lit (pys ''gif''))))),
          Cls quote, Star not_gt, Lit (pys ''>'')]"

definition cover_attr_pattern :: "string \<Rightarrow> regex" where
  "cover_attr_pattern attr =
     cat [Lit (pys ''<img''), Star not_gt, Lit (pys attr), Lit (pys ''=''), Cls quote,
          Star not_quote, Lit cover_word, Star not_quote, Cls quote, Star not_gt,
          Lit (pys ''>'')]"

definition cover_patterns :: "regex list" where
  "cover_patterns =
     [cover_src_pattern, cover_attr_pattern ''alt'', cover_attr_pattern ''title'']"

definition comment_img_pattern :: regex where
  "comment_img_pattern =
     cat [Group 1 (cat [Lit (pys ''<!--''), Star not_gt, Lit title_word, Star not_gt,
                        Lit (pys ''-->'')]),
          Star Space, Lit (pys ''<img''), Star not_gt, Lit (pys ''>'')]"

definition remove_cover_image :: "pystr \<Rightarrow> pystr" where
  "remove_cover_image content =
     re_sub1 True comment_img_pattern (\<lambda>mt. group mt 1)
       (foldl (\<lambda>content pattern. re_sub True pattern (\<lambda>mt. []) content) content cover_patterns)"

text \<open>
  \<^verbatim>\<open>_upload_content_images\<close> (publisher.py 357-419) with its callback \<^verbatim>\<open>replace_image\<close>. The
  pattern is \<^verbatim>\<open><img([^>]*?)src=["\']([^"\']+)["\']([^>]*?)>\<close>. \<^verbatim>\<open>str.lower\<close> is modelled on the
  ASCII letters: no other code point lowers to a string with one of the letters of
  \<^verbatim>\<open>cover\<close>, so the test \<^verbatim>\<open>'cover' in src.lower()\<close> is decided by them. The callback's
  \<^verbatim>\<open>try\<close> turns every exception of \<^verbatim>\<open>upload_image\<close> into the unchanged tag.
\<close>

definition img_pattern :: regex where
  "img_pattern =
     cat [Lit (pys ''<img''), Group 1 (StarLazy not_gt), Lit (pys ''src=''), Cls quote,
          Group 2 (Plus not_quote), Cls quote, Group 3 (StarLazy not_gt), Lit (pys ''>'')]"

definition lower :: "pystr \<Rightarrow> pystr" where
  "lower s = map (\<lambda>x. if 0x41 \<le> x \<and> x \<le> 0x5A then x + 32 else x) s"

definition replace_image :: "pystr \<Rightarrow> rmatch \<Rightarrow> state \<Rightarrow> pystr \<times> state" where
  "replace_image base_dir mt w =
     (let before_src = group mt 1; src = group mt 2; after_src = group mt 3 in
      if startswith src (pys ''http://'') \<or> startswith src (pys ''https://'') then (group0 mt, w)
      else if contains (lower src) (pys ''cover'') then (group0 mt, w)
      else
        (let image_path = Under base_dir src in
         if \<not> exists_file w image_path then (group0 mt, w)
         else
           (case upload_image image_path w of
              (Inl e, w1) \<Rightarrow> (group0 mt, w1)
            | (Inr (media_id, wechat_url), w1) \<Rightarrow>
                if wechat_url \<noteq> [] then
                  (pys ''<img'' @ before_src @ pys ''src='' @ [dq] @ wechat_url @ [dq]
                     @ after_src @ pys ''>'', w1)
                else (group0 mt, w1))))"

definition upload_content_images :: "pystr \<Rightarrow> pystr \<Rightarrow> state \<Rightarrow> pystr \<times> state" where
  "upload_content_images content base_dir w =
     sub_with (replace_image base_dir) (scan False img_pattern content) w"

text \<open>
  \<^verbatim>\<open>_fix_wechat_editor_issues\<close> (publisher.py 421-473): seven substitutions in a row, with
  the patterns \<^verbatim>\<open>>\s+<\<close>, \<^verbatim>\<open>([a-z-]+:\s*[^;]+);\<close>, \<^verbatim>\<open>style="(?![^"]*text-indent)([^"]*)"\<close> and
  \<^verbatim>\<open>P:[^;]+;?\s*\<close> for \<^verbatim>\<open>P\<close> one of \<^verbatim>\<open>box-shadow\<close>, \<^verbatim>\<open>text-shadow\<close>, \<^verbatim>\<open>transform\<close>, \<^verbatim>\<open>transition\<close>.
\<close>

definition gap_pattern :: regex where
  "gap_pattern = cat [Lit (pys ''>''), Plus Space, Lit (pys ''<'')]"

definition decl_pattern :: regex where
  "decl_pattern =
     cat [Group 1 (cat [Plus az_dash, Lit (pys '':''), Star Space, Plus not_semi]),
          Lit (pys '';'')]"

definition add_important :: "rmatch \<Rightarrow> pystr" where
  "add_important mt =
     (let prop = group mt 1 in
      if contains prop (pys ''!important'') then prop @ pys '';''
      else prop @ pys '' !important;'')"

definition style_pattern :: regex where
  "style_pattern =
     cat [Lit (pys ''style='' @ [dq]),
          NotAhead (cat [Star not_dq, Lit (pys ''text-indent'')]),
          Group 1 (Star not_dq), Lit [dq]]"

definition add_indent :: "rmatch \<Rightarrow> pystr" where
  "add_indent mt = pys ''style='' @ [dq] @ group mt 1 @ pys '' text-indent: 0 !important;'' @ [dq]"

definition strip_pattern :: "string \<Rightarrow> regex" where
  "strip_pattern prop =
     cat [Lit (pys prop), Lit (pys '':''), Plus not_semi, Opt (Lit (pys '';'')), Star Space]"

definition fix_wechat_editor_issues :: "pystr \<Rightarrow> pystr" where
  "fix_wechat_editor_issues content =
     (let content = re_sub False gap_pattern (\<lambda>mt. pys ''><'') content;
          content = re_sub False decl_pattern add_important content;
          content = re_sub False style_pattern add_indent content;
          content = re_sub False (strip_pattern ''box-shadow'') (\<lambda>mt. []) content;
          content = re_sub False (strip_pattern ''text-shadow'') (\<lambda>mt. []) content;
          content = re_sub False (strip_pattern ''transform'') (\<lambda>mt. []) content;
          content = re_sub False (strip_pattern ''transition'') (\<lambda>mt. []) content
      in content)"

section \<open>Field limits\<close>

text \<open>
  The title block of \<^verbatim>\<open>create_draft\<close> (publisher.py 537-560): 64 characters
  (\<^verbatim>\<open>MAX_TITLE_CHARS\<close>) first, else 192 bytes (\<^verbatim>\<open>MAX_TITLE_BYTES\<close>). Each branch prints a
  warning.
\<close>

definition limit_title :: "pystr \<Rightarrow> error + pystr \<times> notice list" where
  "limit_title title =
     (case encode_utf8 title of
        Inl e \<Rightarrow> Inl e
      | Inr encoded \<Rightarrow>
          if length title > 64 then Inr (take 64 title, [TitleCharsWarning])
          else if length encoded > 192 then
            (case truncate_by_bytes title 192 of
               Inl e \<Rightarrow> Inl e
             | Inr t \<Rightarrow> Inr (t, [TitleBytesWarning]))
          else Inr (title, []))"

text \<open>
  The author block (publisher.py 564-572): \<^verbatim>\<open>None\<close> means the configured author; a
  non-empty author is cut to 20 bytes (\<^verbatim>\<open>MAX_AUTHOR_BYTES\<close>), with a warning when that
  changed it.
\<close>

definition limit_author :: "pystr option \<Rightarrow> pystr \<Rightarrow> error + pystr \<times> notice list" where
  "limit_author author configured =
     (let author = (case author of None \<Rightarrow> configured | Some a \<Rightarrow> a) in
      if author \<noteq> [] then
        (case truncate_by_bytes author 20 of
           Inl e \<Rightarrow> Inl e
         | Inr t \<Rightarrow> Inr (t, if t \<noteq> author then [AuthorTruncated] else []))
      else Inr (author, []))"

text \<open>
  The digest block (publisher.py 574-580): an empty or missing digest is taken from the
  title as it stands at that point, cut to 54 bytes; the digest is then cut to 120
  bytes (\<^verbatim>\<open>MAX_DIGEST_BYTES\<close>), with a warning when that changed it.
\<close>

definition limit_digest :: "pystr option \<Rightarrow> pystr \<Rightarrow> error + pystr \<times> notice list" where
  "limit_digest digest title =
     (case (if digest = None \<or> digest = Some [] then truncate_by_bytes title 54
            else Inr (the digest)) of
        Inl e \<Rightarrow> Inl e
      | Inr original_digest \<Rightarrow>
          (case truncate_by_bytes original_digest 120 of
             Inl e \<Rightarrow> Inl e
           | Inr t \<Rightarrow> Inr (t, if t \<noteq> original_digest then [DigestTruncated] else [])))"

text \<open>
  Lines 519-598 of \<^verbatim>\<open>create_draft\<close> together: the three blocks in the order of the source
  and the article built from their results.
\<close>

definition draft_article ::
  "pystr \<Rightarrow> pystr \<Rightarrow> pystr option \<Rightarrow> pystr option \<Rightarrow> pystr option \<Rightarrow> int \<Rightarrow> pystr
     \<Rightarrow> error + article \<times> notice list" where
  "draft_article title content author thumb_media_id digest show_cover_pic configured =
     (case limit_title title of
        Inl e \<Rightarrow> Inl e
      | Inr (title', n1) \<Rightarrow>
          (case limit_author author configured of
             Inl e \<Rightarrow> Inl e
           | Inr (author', n2) \<Rightarrow>
               (case limit_digest digest title' of
                  Inl e \<Rightarrow> Inl e
                | Inr (digest', n3) \<Rightarrow>
                    Inr (\<lparr>a_title = title', a_author = author', a_digest = digest',
                          a_content = content, a_thumb_media_id = thumb_media_id,
                          a_show_cover_pic = show_cover_pic\<rparr>, n1 @ n2 @ n3))))"

section \<open>Draft submission\<close>

text \<open>
  Lines 582-635 of \<^verbatim>\<open>create_draft\<close>: the request with a cached token and, on error code
  40001 or 42001, one forced refresh and one more request. \<open>failed result\<close> is the test
  \<^verbatim>\<open>'errcode' in result and result['errcode'] != 0\<close>.
\<close>

definition failed :: "fields \<Rightarrow> bool" where
  "failed result \<longleftrightarrow> (case r_errcode result of None \<Rightarrow> False | Some errcode \<Rightarrow> errcode \<noteq> 0)"

definition submit_draft :: "article \<Rightarrow> state \<Rightarrow> (error + fields) \<times> state" where
  "submit_draft art w =
     (case get_access_token False w of
        (Inl e, w1) \<Rightarrow> (Inl e, w1)
      | (Inr token, w1) \<Rightarrow>
          (let (rep, w2) = send (PostDraft token art) w1 in
           case rep of
             NoReply \<Rightarrow> (Inl RequestError, w2)
           | Reply result \<Rightarrow>
               if failed result then
                 (if the (r_errcode result) = 40001 \<or> the (r_errcode result) = 42001 then
                    (case get_access_token True w2 of
                       (Inl e, w3) \<Rightarrow> (Inl e, w3)
                     | (Inr token', w3) \<Rightarrow>
                         (let (rep', w4) =
                                send (PostDraft token' art) (w3\<lparr>self_access_token := Some token'\<rparr>)
                          in case rep' of
                               NoReply \<Rightarrow> (Inl RequestError, w4)
                             | Reply result' \<Rightarrow>
                                 if failed result' then
                                   (Inl (ApiError DraftCtx (the (r_errcode result'))), w4)
                                 else (Inr result', w4)))
                  else (Inl (ApiError DraftCtx (the (r_errcode result))), w2))
               else (Inr result, w2)))"

section \<open>The orchestrator\<close>

text \<open>
  \<^verbatim>\<open>create_draft\<close> (publisher.py 475-635). A missing cover (\<^verbatim>\<open>None\<close> or the empty string) is
  replaced by the upload of the default cover when that file exists.
\<close>

definition create_draft ::
  "pystr \<Rightarrow> pystr \<Rightarrow> pystr option \<Rightarrow> pystr option \<Rightarrow> pystr option \<Rightarrow> int \<Rightarrow> pystr \<Rightarrow> state
     \<Rightarrow> (error + fields) \<times> state" where
  "create_draft title content author thumb_media_id digest show_cover_pic content_base_dir w =
     (case (if (thumb_media_id = None \<or> thumb_media_id = Some []) \<and> exists_file w DefaultCover
            then (case upload_image DefaultCover w of
                    (Inl e, w0) \<Rightarrow> (Inl e, w0)
                  | (Inr (media_id, url), w0) \<Rightarrow> (Inr media_id, w0))
            else (Inr thumb_media_id, w)) of
        (Inl e, w0) \<Rightarrow> (Inl e, w0)
      | (Inr thumb_media_id, w0) \<Rightarrow>
          (let content = remove_cover_image content;
               (content, w1) = upload_content_images content content_base_dir w0;
               content = fix_wechat_editor_issues content
           in case draft_article title content author thumb_media_id digest show_cover_pic
                     (self_author w1) of
                Inl e \<Rightarrow> (Inl e, w1)
              | Inr (art, notices) \<Rightarrow> submit_draft art (w1\<lparr>printed := printed w1 @ notices\<rparr>)))"

section \<open>Counting requests; example environments\<close>

text \<open>A \<^verbatim>\<open>draft/add\<close> request of the log.\<close>

fun is_post_draft :: "request \<Rightarrow> bool" where
  "is_post_draft (PostDraft token art) = True"
| "is_post_draft req = False"

text \<open>
  Replies and states used to evaluate the model on concrete runs: a reply carrying a
  token, a reply carrying an error code, a reply with \<^verbatim>\<open>errcode\<close> 0 next to a payload, a
  publisher with credentials \<^verbatim>\<open>wx\<close> / \<^verbatim>\<open>s\<close> whose clock always reads 1000, and servers
  that always answer 42001 to a draft and 40164 to a token request, answer 42001 to the
  first draft only, always answer 45009, or always answer with \<^verbatim>\<open>errcode\<close> 0.
\<close>

definition token_reply :: "pystr \<Rightarrow> reply" where
  "token_reply t = Reply \<lparr>r_errcode = None, r_access_token = Some t, r_expires_in = None,
                          r_media_id = None, r_url = None\<rparr>"

definition error_reply :: "int \<Rightarrow> reply" where
  "error_reply c = Reply \<lparr>r_errcode = Some c, r_access_token = None, r_expires_in = None,
                          r_media_id = None, r_url = None\<rparr>"

definition demo_state :: "cache option \<Rightarrow> (request list \<Rightarrow> reply) \<Rightarrow> state" where
  "demo_state c srv =
     \<lparr>self_appid = pys ''wx'', self_appsecret = pys ''s'', self_author = [],
      self_access_token = None, cache_file = c, exists_file = (\<lambda>p. False),
      clock = (\<lambda>k. 1000), ticks = 0, server = srv, sent = [], printed = []\<rparr>"

definition retry_server :: "request list \<Rightarrow> reply" where
  "retry_server reqs =
     (case last reqs of
        PostDraft token art \<Rightarrow> error_reply 42001
      | GetToken appid secret \<Rightarrow> error_reply 40164
      | PostImage token p \<Rightarrow> NoReply)"

definition demo_article :: article where
  "demo_article = \<lparr>a_title = [0x61], a_author = [], a_digest = [0x64], a_content = [],
                    a_thumb_media_id = Some [0x6D], a_show_cover_pic = 1\<rparr>"

definition ok_reply :: reply where
  "ok_reply = Reply \<lparr>r_errcode = Some 0, r_access_token = Some [0x4E], r_expires_in = None,
                     r_media_id = Some [0x6D], r_url = Some [0x75]\<rparr>"

definition flaky_server :: "request list \<Rightarrow> reply" where
  "flaky_server reqs =
     (case last reqs of
        PostDraft token art \<Rightarrow>
          if length (filter is_post_draft reqs) = 1 then error_reply 42001 else ok_reply
      | GetToken appid secret \<Rightarrow> token_reply [0x4E]
      | PostImage token p \<Rightarrow> NoReply)"

definition quota_server :: "request list \<Rightarrow> reply" where
  "quota_server reqs = error_reply 45009"

definition zero_server :: "request list \<Rightarrow> reply" where
  "zero_server reqs = ok_reply"

definition fresh_cache :: "cache option" where
  "fresh_cache = Some (Cache (Some [0x54]) (Some 11000))"

definition stale_cache :: "cache option" where
  "stale_cache = Some (Cache (Some [0x54]) (Some 1100))"

section \<open>Properties of the encoder\<close>

lemma encode_cp_length:
  "encode_cp c = Inr bs \<Longrightarrow> 1 \<le> length bs \<and> length bs \<le> 4"
  by (auto simp: encode_cp_def split: if_splits)

lemma encode_utf8_append:
  "encode_utf8 (xs @ ys) =
     (case encode_utf8 xs of
        Inl e \<Rightarrow> Inl e
      | Inr a \<Rightarrow> (case encode_utf8 ys of Inl e \<Rightarrow> Inl e | Inr b \<Rightarrow> Inr (a @ b)))"
  by (induction xs) (auto split: sum.splits)

lemma encode_utf8_split:
  assumes "encode_utf8 s = Inr bs"
  shows "\<exists>a b. encode_utf8 (take k s) = Inr a \<and> encode_utf8 (drop k s) = Inr b \<and> bs = a @ b"
proof -
  have "encode_utf8 (take k s @ drop k s) = Inr bs"
    using assms by simp
  then show ?thesis
    unfolding encode_utf8_append by (auto split: sum.splits)
qed

lemma encode_utf8_length_ge:
  "encode_utf8 s = Inr bs \<Longrightarrow> length s \<le> length bs"
proof (induction s arbitrary: bs)
  case Nil
  then show ?case by simp
next
  case (Cons c cs)
  then obtain a b where a: "encode_cp c = Inr a" and b: "encode_utf8 cs = Inr b"
    and bs: "bs = a @ b"
    by (auto split: sum.splits)
  from encode_cp_length[OF a] Cons.IH[OF b] bs show ?case by simp
qed

lemma encode_utf8_length_le:
  "encode_utf8 s = Inr bs \<Longrightarrow> length bs \<le> 4 * length s"
proof (induction s arbitrary: bs)
  case Nil
  then show ?case by simp
next
  case (Cons c cs)
  then obtain a b where a: "encode_cp c = Inr a" and b: "encode_utf8 cs = Inr b"
    and bs: "bs = a @ b"
    by (auto split: sum.splits)
  from encode_cp_length[OF a] Cons.IH[OF b] bs show ?case by simp
qed

text \<open>The encoded length of a prefix grows with the prefix.\<close>

lemma encode_utf8_take_mono:
  assumes "encode_utf8 s = Inr bs" and "j \<le> k"
    and "encode_utf8 (take j s) = Inr a" and "encode_utf8 (take k s) = Inr b"
  shows "length a \<le> length b"
proof -
  have "take j (take k s) = take j s"
    using assms(2) by (simp add: min_def)
  with encode_utf8_split[OF assms(4), of j] assms(3) show ?thesis
    by auto
qed

section \<open>Properties of the truncation loop\<close>

lemma truncate_loop_result:
  assumes "encode_utf8 s = Inr bs" and "0 \<le> n" and "i \<le> length s"
  shows "\<exists>t bt. truncate_loop s n i = Inr t \<and> take (length t) s = t \<and> length t \<le> i
           \<and> encode_utf8 t = Inr bt \<and> int (length bt) \<le> n
           \<and> (\<forall>k bk. k \<le> i \<longrightarrow> encode_utf8 (take k s) = Inr bk \<longrightarrow> int (length bk) \<le> n
                 \<longrightarrow> k \<le> length t)"
  using assms(3)
proof (induction i)
  case 0
  then show ?case using assms(2) by simp
next
  case (Suc i)
  from encode_utf8_split[OF assms(1), of "Suc i"]
  obtain a where a: "encode_utf8 (take (Suc i) s) = Inr a" by auto
  show ?case
  proof (cases "int (length a) \<le> n")
    case True
    have len: "length (take (Suc i) s) = Suc i" using Suc.prems by simp
    have "truncate_loop s n (Suc i) = Inr (take (Suc i) s)"
      using a True by simp
    moreover have "take (length (take (Suc i) s)) s = take (Suc i) s"
      using len by simp
    ultimately show ?thesis
      using a True len by auto
  next
    case False
    from Suc.IH Suc.prems obtain t bt where
      t: "truncate_loop s n i = Inr t" "take (length t) s = t" "length t \<le> i"
         "encode_utf8 t = Inr bt" "int (length bt) \<le> n"
      and mx: "\<forall>k bk. k \<le> i \<longrightarrow> encode_utf8 (take k s) = Inr bk \<longrightarrow> int (length bk) \<le> n
                 \<longrightarrow> k \<le> length t"
      by auto
    have step: "truncate_loop s n (Suc i) = Inr t"
      using a False t(1) by simp
    have "k \<le> length t"
      if "k \<le> Suc i" "encode_utf8 (take k s) = Inr bk" "int (length bk) \<le> n" for k bk
    proof (cases "k = Suc i")
      case True
      with that a False show ?thesis by simp
    next
      case False
      with that mx show ?thesis by auto
    qed
    with step t show ?thesis by auto
  qed
qed

lemma truncate_by_bytes_full:
  assumes "encode_utf8 s = Inr bs" and "0 \<le> n"
  shows "\<exists>t bt br. truncate_by_bytes s n = Inr t
           \<and> take (length t) s = t
           \<and> encode_utf8 t = Inr bt \<and> int (length bt) \<le> n
           \<and> encode_utf8 (drop (length t) s) = Inr br \<and> bs = bt @ br
           \<and> (\<forall>k bk. k \<le> length s \<longrightarrow> encode_utf8 (take k s) = Inr bk
                 \<longrightarrow> int (length bk) \<le> n \<longrightarrow> k \<le> length t)
           \<and> (int (length bs) \<le> n \<longrightarrow> t = s)"
proof (cases "int (length bs) \<le> n")
  case True
  have "truncate_by_bytes s n = Inr s"
    using assms(1) True by (simp add: truncate_by_bytes_def)
  then show ?thesis
    using assms(1) True by simp
next
  case False
  from truncate_loop_result[OF assms, of "length s"]
  obtain t bt where
    t: "truncate_loop s n (length s) = Inr t" "take (length t) s = t"
       "encode_utf8 t = Inr bt" "int (length bt) \<le> n"
    and mx: "\<forall>k bk. k \<le> length s \<longrightarrow> encode_utf8 (take k s) = Inr bk
               \<longrightarrow> int (length bk) \<le> n \<longrightarrow> k \<le> length t"
    by auto
  have res: "truncate_by_bytes s n = Inr t"
    using assms(1) False t(1) by (simp add: truncate_by_bytes_def)
  from encode_utf8_split[OF assms(1), of "length t"] t(2,3)
  obtain br where "encode_utf8 (drop (length t) s) = Inr br" "bs = bt @ br"
    by auto
  with res t mx False show ?thesis
    by auto
qed

text \<open>
  C1. For every string \<open>s\<close> that has a UTF-8 encoding \<open>bs\<close> and every byte limit \<open>n \<ge> 0\<close>,
  \<^verbatim>\<open>truncate_by_bytes(s, n)\<close> returns a prefix \<open>t\<close> of \<open>s\<close> whose encoding \<open>bt\<close> has at most
  \<open>n\<close> bytes; \<open>bt\<close> ends on a code point boundary of \<open>bs\<close> (the rest of \<open>bs\<close> is the
  encoding of the code points dropped); no longer prefix of \<open>s\<close> fits into \<open>n\<close> bytes;
  and \<open>t = s\<close> when \<open>bs\<close> itself has at most \<open>n\<close> bytes.
\<close>

theorem truncate_by_bytes_longest_prefix:
  assumes "encode_utf8 s = Inr bs" and "0 \<le> n"
  shows "\<exists>t bt br. truncate_by_bytes s n = Inr t
           \<and> take (length t) s = t
           \<and> encode_utf8 t = Inr bt \<and> int (length bt) \<le> n
           \<and> encode_utf8 (drop (length t) s) = Inr br \<and> bs = bt @ br
           \<and> (\<forall>k bk. k \<le> length s \<longrightarrow> encode_utf8 (take k s) = Inr bk
                 \<longrightarrow> int (length bk) \<le> n \<longrightarrow> k \<le> length t)
           \<and> (int (length bs) \<le> n \<longrightarrow> t = s)"
  using assms by (rule truncate_by_bytes_full)

theorem truncate_by_bytes_longest_prefix_witness:
  "encode_utf8 [0x4E2D, 0x6587, 0x61] = Inr [0xE4, 0xB8, 0xAD, 0xE6, 0x96, 0x87, 0x61]
   \<and> (0::int) \<le> 4
   \<and> truncate_by_bytes [0x4E2D, 0x6587, 0x61] 4 = Inr [0x4E2D]
   \<and> (\<exists>t bt br. truncate_by_bytes [0x4E2D, 0x6587, 0x61] 4 = Inr t
         \<and> encode_utf8 t = Inr bt \<and> int (length bt) \<le> 4
         \<and> [0xE4, 0xB8, 0xAD, 0xE6, 0x96, 0x87, 0x61] = bt @ br)"
proof -
  have e: "encode_utf8 [0x4E2D, 0x6587, 0x61] = Inr [0xE4, 0xB8, 0xAD, 0xE6, 0x96, 0x87, 0x61]"
    by (simp add: encode_cp_def)
  have n: "(0::int) \<le> 4" by simp
  have r: "truncate_by_bytes [0x4E2D, 0x6587, 0x61] 4 = Inr [0x4E2D]"
    by (simp add: truncate_by_bytes_def encode_cp_def)
  from truncate_by_bytes_longest_prefix[OF e n] e n r show ?thesis
    by blast
qed

lemma truncate_by_bytes_result:
  assumes "encode_utf8 s = Inr bs" and "0 \<le> n"
  shows "\<exists>t bt. truncate_by_bytes s n = Inr t
           \<and> take (length t) s = t
           \<and> encode_utf8 t = Inr bt \<and> int (length bt) \<le> n
           \<and> (\<forall>k bk. k \<le> length s \<longrightarrow> encode_utf8 (take k s) = Inr bk
                 \<longrightarrow> int (length bk) \<le> n \<longrightarrow> k \<le> length t)
           \<and> (int (length bs) \<le> n \<longrightarrow> t = s)"
  using truncate_by_bytes_full[OF assms] by blast

section \<open>Properties of the field limits\<close>

lemma take_eq_length_le:
  assumes "take (length t) s = t"
  shows "length t \<le> length s"
proof -
  have "length (take (length t) s) = length t"
    using assms by simp
  then show ?thesis by simp
qed

lemma truncate_by_bytes_fits:
  assumes "encode_utf8 s = Inr bs" and "int (length bs) \<le> n"
  shows "truncate_by_bytes s n = Inr s"
  using assms by (simp add: truncate_by_bytes_def)

lemma encode_utf8_take:
  assumes "encode_utf8 s = Inr bs"
  shows "\<exists>a. encode_utf8 (take k s) = Inr a \<and> length a \<le> length bs"
  using encode_utf8_split[OF assms, of k] by auto

text \<open>Truncating a long enough prefix gives the same result as truncating the string.\<close>

lemma truncate_by_bytes_prefix:
  assumes enc: "encode_utf8 s = Inr bs" and n: "0 \<le> n"
    and res: "truncate_by_bytes s n = Inr t" and K: "length t \<le> K"
  shows "truncate_by_bytes (take K s) n = Inr t"
proof -
  from truncate_by_bytes_result[OF enc n] res obtain bt where
    t: "take (length t) s = t" "encode_utf8 t = Inr bt" "int (length bt) \<le> n"
    and mx: "\<forall>k bk. k \<le> length s \<longrightarrow> encode_utf8 (take k s) = Inr bk
               \<longrightarrow> int (length bk) \<le> n \<longrightarrow> k \<le> length t"
    by auto
  from encode_utf8_take[OF enc, of K] obtain kb where kb: "encode_utf8 (take K s) = Inr kb"
    by auto
  from truncate_by_bytes_result[OF kb n] obtain t' bt' where
    t': "truncate_by_bytes (take K s) n = Inr t'" "take (length t') (take K s) = t'"
        "encode_utf8 t' = Inr bt'" "int (length bt') \<le> n"
    and mx': "\<forall>k bk. k \<le> length (take K s) \<longrightarrow> encode_utf8 (take k (take K s)) = Inr bk
               \<longrightarrow> int (length bk) \<le> n \<longrightarrow> k \<le> length t'"
    by auto
  have lt: "length t \<le> length s"
    using t(1) by (rule take_eq_length_le)
  have ltK: "length t' \<le> length (take K s)"
    using t'(2) by (rule take_eq_length_le)
  then have lt'K: "length t' \<le> K" and lt's: "length t' \<le> length s"
    by simp_all
  have "take (length t) (take K s) = take (length t) s"
    using K by (simp add: min_absorb1)
  then have eq1: "encode_utf8 (take (length t) (take K s)) = Inr bt"
    using t(1,2) by (simp only:)
  have "length t \<le> length (take K s)"
    using K lt by simp
  from mx'[rule_format, OF this eq1 t(3)] have le1: "length t \<le> length t'" .
  have "take (length t') (take K s) = take (length t') s"
    using lt'K by (simp add: min_absorb1)
  with t'(2) have eq2: "take (length t') s = t'"
    by (simp only:)
  then have "encode_utf8 (take (length t') s) = Inr bt'"
    using t'(3) by (simp only:)
  from mx[rule_format, OF lt's this t'(4)] have le2: "length t' \<le> length t" .
  from le1 le2 have "length t' = length t" by (rule order_antisym[rotated])
  then have mid: "take (length t') s = take (length t) s" by (simp only:)
  have "t' = take (length t') s" using eq2 by (rule sym)
  also have "\<dots> = take (length t) s" by (rule mid)
  also have "\<dots> = t" by (rule t(1))
  finally have "t' = t" .
  then show ?thesis using t'(1) by (simp only:)
qed

lemma limit_digest_derived:
  assumes enc: "encode_utf8 title = Inr tb" and lim: "limit_title title = Inr (title', n1)"
  shows "truncate_by_bytes title' 54 = truncate_by_bytes title 54"
proof -
  have n: "(0::int) \<le> 54" by simp
  from truncate_by_bytes_result[OF enc n] obtain t bt where
    t: "truncate_by_bytes title 54 = Inr t" "take (length t) title = t"
       "encode_utf8 t = Inr bt" "int (length bt) \<le> 54"
    by auto
  have lt54: "length t \<le> 54"
    using encode_utf8_length_ge[OF t(3)] t(4) by simp
  have lts: "length t \<le> length title"
    using t(2) by (rule take_eq_length_le)
  consider (chars) "length title > 64" "title' = take 64 title"
    | (bytes) "\<not> length title > 64" "length tb > 192" "truncate_by_bytes title 192 = Inr title'"
    | (same) "title' = title"
    using lim enc by (auto simp: limit_title_def split: if_splits sum.splits)
  then show ?thesis
  proof cases
    case chars
    have "truncate_by_bytes (take 64 title) 54 = Inr t"
      by (rule truncate_by_bytes_prefix[OF enc n t(1)]) (use lt54 in simp)
    with chars t(1) show ?thesis by simp
  next
    case bytes
    have n2: "(0::int) \<le> 192" by simp
    from truncate_by_bytes_result[OF enc n2] bytes(3) have
      p: "take (length title') title = title'"
      and mx: "\<forall>k bk. k \<le> length title \<longrightarrow> encode_utf8 (take k title) = Inr bk
               \<longrightarrow> int (length bk) \<le> 192 \<longrightarrow> k \<le> length title'"
      by auto
    have "length t \<le> length title'"
      using mx lts t(2,3,4) by auto
    from truncate_by_bytes_prefix[OF enc n t(1) this] p t(1) show ?thesis by simp
  next
    case same
    then show ?thesis by simp
  qed
qed

lemma encode_utf8_replicate:
  assumes "encode_cp c = Inr b"
  shows "encode_utf8 (replicate k c) = Inr (concat (replicate k b))"
  using assms by (induction k) auto

lemma limit_title_total:
  assumes "encode_utf8 title = Inr encoded"
  shows "\<exists>t n1. limit_title title = Inr (t, n1)"
proof -
  have "(0::int) \<le> 192" by simp
  from truncate_by_bytes_result[OF assms this] show ?thesis
    using assms by (auto simp: limit_title_def)
qed

text \<open>
  C4. For a title that has a UTF-8 encoding: a title of more than 64 characters becomes
  its first 64 characters, with the character warning; the 192-byte rule applies only
  when the title has at most 64 characters and more than 192 bytes, and then the title
  becomes \<^verbatim>\<open>truncate_by_bytes(title, 192)\<close>, with the byte warning; otherwise the title is
  unchanged and nothing is reported. The title of the article built by \<open>draft_article\<close>
  is this result and its warning is among the notices.
\<close>

theorem title_limit_rule:
  assumes "encode_utf8 title = Inr encoded"
  shows "(length title > 64 \<longrightarrow>
            limit_title title = Inr (take 64 title, [TitleCharsWarning])
            \<and> length (take 64 title) = 64)
       \<and> (length title \<le> 64 \<and> length encoded > 192 \<longrightarrow>
            (\<exists>t. truncate_by_bytes title 192 = Inr t
                 \<and> limit_title title = Inr (t, [TitleBytesWarning])))
       \<and> (length title \<le> 64 \<and> length encoded \<le> 192 \<longrightarrow> limit_title title = Inr (title, []))
       \<and> (\<forall>content author thumb digest show_cover configured art ns.
            draft_article title content author thumb digest show_cover configured = Inr (art, ns)
            \<longrightarrow> (\<exists>n1. limit_title title = Inr (a_title art, n1) \<and> set n1 \<subseteq> set ns))"
proof -
  have n: "(0::int) \<le> 192" by simp
  from truncate_by_bytes_result[OF assms n] obtain t where
    t: "truncate_by_bytes title 192 = Inr t" by auto
  have a: "length title > 64 \<longrightarrow>
            limit_title title = Inr (take 64 title, [TitleCharsWarning])
            \<and> length (take 64 title) = 64"
    using assms by (simp add: limit_title_def)
  have b: "length title \<le> 64 \<and> length encoded > 192 \<longrightarrow>
            (\<exists>t. truncate_by_bytes title 192 = Inr t
                 \<and> limit_title title = Inr (t, [TitleBytesWarning]))"
    using assms t by (simp add: limit_title_def)
  have c: "length title \<le> 64 \<and> length encoded \<le> 192 \<longrightarrow> limit_title title = Inr (title, [])"
    using assms by (simp add: limit_title_def)
  have d: "\<exists>n1. limit_title title = Inr (a_title art, n1) \<and> set n1 \<subseteq> set ns"
    if "draft_article title content author thumb digest show_cover configured = Inr (art, ns)"
    for content author thumb digest show_cover configured art ns
    using that by (auto simp: draft_article_def split: sum.splits prod.splits)
  from a b c d show ?thesis by blast
qed

theorem title_limit_rule_witness:
  "encode_utf8 (replicate 70 0x61) = Inr (concat (replicate 70 [0x61]))
   \<and> length (replicate 70 (0x61::nat)) > 64
   \<and> limit_title (replicate 70 0x61) = Inr (replicate 64 0x61, [TitleCharsWarning])
   \<and> encode_utf8 (replicate 50 0x1F600) = Inr (concat (replicate 50 [0xF0, 0x9F, 0x98, 0x80]))
   \<and> length (replicate 50 (0x1F600::nat)) \<le> 64
   \<and> length (concat (replicate 50 [0xF0, 0x9F, 0x98, 0x80 :: byte])) > 192
   \<and> (\<exists>t. truncate_by_bytes (replicate 50 0x1F600) 192 = Inr t
          \<and> limit_title (replicate 50 0x1F600) = Inr (t, [TitleBytesWarning]))
   \<and> encode_utf8 [0x61, 0x62] = Inr [0x61, 0x62]
   \<and> limit_title [0x61, 0x62] = Inr ([0x61, 0x62], [])"
proof -
  have e1: "encode_utf8 (replicate 70 0x61) = Inr (concat (replicate 70 [0x61]))"
    by (rule encode_utf8_replicate) (simp add: encode_cp_def)
  have e2: "encode_utf8 (replicate 50 0x1F600) = Inr (concat (replicate 50 [0xF0, 0x9F, 0x98, 0x80]))"
    by (rule encode_utf8_replicate) (simp add: encode_cp_def)
  have e3: "encode_utf8 [0x61, 0x62] = Inr [0x61, 0x62]"
    by (simp add: encode_cp_def)
  have l2: "length (concat (replicate 50 [0xF0, 0x9F, 0x98, 0x80 :: byte])) > 192"
    by (simp add: length_concat sum_list_replicate)
  have t1: "take 64 (replicate 70 (0x61::nat)) = replicate 64 0x61"
    by (simp add: min_def)
  from title_limit_rule[OF e1] title_limit_rule[OF e2] title_limit_rule[OF e3] e1 e2 e3 l2 t1
  show ?thesis
    by simp
qed

lemma limit_author_result:
  assumes "encode_utf8 (case author of None \<Rightarrow> configured | Some a \<Rightarrow> a) = Inr ab"
  shows "\<exists>t n2 e. limit_author author configured = Inr (t, n2)
           \<and> truncate_by_bytes (case author of None \<Rightarrow> configured | Some a \<Rightarrow> a) 20 = Inr t
           \<and> encode_utf8 t = Inr e \<and> length e \<le> 20"
proof -
  have n: "(0::int) \<le> 20" by simp
  from truncate_by_bytes_result[OF assms n] obtain t bt where
    t: "truncate_by_bytes (case author of None \<Rightarrow> configured | Some a \<Rightarrow> a) 20 = Inr t"
       "encode_utf8 t = Inr bt" "int (length bt) \<le> 20"
    by auto
  show ?thesis
  proof (cases "(case author of None \<Rightarrow> configured | Some a \<Rightarrow> a) = []")
    case True
    then have "limit_author author configured = Inr ([], [])"
      by (simp add: limit_author_def)
    moreover have "truncate_by_bytes [] 20 = Inr []"
      by (simp add: truncate_by_bytes_def)
    ultimately show ?thesis using True by simp
  next
    case False
    then have "limit_author author configured = Inr (t, if t \<noteq> (case author of None \<Rightarrow> configured | Some a \<Rightarrow> a) then [AuthorTruncated] else [])"
      using t(1) by (simp add: limit_author_def Let_def)
    with t show ?thesis by auto
  qed
qed

lemma limit_digest_result:
  assumes tt: "encode_utf8 title' = Inr tb"
    and dd: "encode_utf8 (case digest of None \<Rightarrow> [] | Some d \<Rightarrow> d) = Inr db"
  shows "\<exists>t n3 e. limit_digest digest title' = Inr (t, n3)
           \<and> ((digest = None \<or> digest = Some []) \<longrightarrow> truncate_by_bytes title' 54 = Inr t)
           \<and> (\<forall>d. digest = Some d \<and> d \<noteq> [] \<longrightarrow> truncate_by_bytes d 120 = Inr t)
           \<and> encode_utf8 t = Inr e \<and> length e \<le> 120"
proof (cases "digest = None \<or> digest = Some []")
  case True
  have n: "(0::int) \<le> 54" by simp
  from truncate_by_bytes_result[OF tt n] obtain t bt where
    t: "truncate_by_bytes title' 54 = Inr t" "encode_utf8 t = Inr bt" "int (length bt) \<le> 54"
    by auto
  have "truncate_by_bytes t 120 = Inr t"
    by (rule truncate_by_bytes_fits[OF t(2)]) (use t(3) in simp)
  then have "limit_digest digest title' = Inr (t, [])"
    using True t(1) by (simp add: limit_digest_def)
  with True t show ?thesis by auto
next
  case False
  then obtain d where d: "digest = Some d" "d \<noteq> []" by auto
  have n: "(0::int) \<le> 120" by simp
  from dd d have "encode_utf8 d = Inr db" by simp
  from truncate_by_bytes_result[OF this n] obtain t bt where
    t: "truncate_by_bytes d 120 = Inr t" "encode_utf8 t = Inr bt" "int (length bt) \<le> 120"
    by auto
  have "limit_digest digest title' = Inr (t, if t \<noteq> d then [DigestTruncated] else [])"
    using d t(1) by (simp add: limit_digest_def)
  with d t show ?thesis by auto
qed

lemma limit_title_encodable:
  assumes "encode_utf8 title = Inr tb" and "limit_title title = Inr (t, n1)"
  shows "\<exists>b. encode_utf8 t = Inr b"
proof -
  have n: "(0::int) \<le> 192" by simp
  from truncate_by_bytes_result[OF assms(1) n] encode_utf8_take[OF assms(1), of 64] assms
  show ?thesis
    by (auto simp: limit_title_def split: if_splits)
qed

text \<open>
  C5. When title, author and digest have UTF-8 encodings, the article is built, and: with
  no digest supplied (\<^verbatim>\<open>None\<close> or empty) the digest is \<^verbatim>\<open>truncate_by_bytes\<close> of the title as
  passed in, before any truncation, at 54 bytes; a supplied digest is cut by
  \<^verbatim>\<open>truncate_by_bytes\<close> at 120 bytes; the digest has at most 120 bytes; the author (the
  configured one when \<^verbatim>\<open>None\<close> is passed) is cut by \<^verbatim>\<open>truncate_by_bytes\<close> at 20 bytes and
  has at most 20 bytes.
\<close>

theorem digest_and_author_limits:
  assumes tt: "encode_utf8 title = Inr tb"
    and aa: "encode_utf8 (case author of None \<Rightarrow> configured | Some a \<Rightarrow> a) = Inr ab"
    and dd: "encode_utf8 (case digest of None \<Rightarrow> [] | Some d \<Rightarrow> d) = Inr db"
  shows "\<exists>art ns.
           draft_article title content author thumb digest show_cover configured = Inr (art, ns)
           \<and> ((digest = None \<or> digest = Some []) \<longrightarrow>
                 truncate_by_bytes title 54 = Inr (a_digest art))
           \<and> (\<forall>d. digest = Some d \<and> d \<noteq> [] \<longrightarrow> truncate_by_bytes d 120 = Inr (a_digest art))
           \<and> (\<exists>e. encode_utf8 (a_digest art) = Inr e \<and> length e \<le> 120)
           \<and> truncate_by_bytes (case author of None \<Rightarrow> configured | Some a \<Rightarrow> a) 20
                 = Inr (a_author art)
           \<and> (\<exists>e. encode_utf8 (a_author art) = Inr e \<and> length e \<le> 20)"
proof -
  from limit_title_total[OF tt] obtain t n1 where t: "limit_title title = Inr (t, n1)"
    by auto
  from limit_title_encodable[OF tt t] obtain b where b: "encode_utf8 t = Inr b" by auto
  from limit_author_result[OF aa] obtain a n2 ea where
    a: "limit_author author configured = Inr (a, n2)"
       "truncate_by_bytes (case author of None \<Rightarrow> configured | Some a \<Rightarrow> a) 20 = Inr a"
       "encode_utf8 a = Inr ea" "length ea \<le> 20"
    by auto
  from limit_digest_result[OF b dd] obtain d n3 ed where
    d: "limit_digest digest t = Inr (d, n3)"
       "(digest = None \<or> digest = Some []) \<longrightarrow> truncate_by_bytes t 54 = Inr d"
       "\<forall>x. digest = Some x \<and> x \<noteq> [] \<longrightarrow> truncate_by_bytes x 120 = Inr d"
       "encode_utf8 d = Inr ed" "length ed \<le> 120"
    by auto
  have art: "draft_article title content author thumb digest show_cover configured
      = Inr (\<lparr>a_title = t, a_author = a, a_digest = d, a_content = content,
              a_thumb_media_id = thumb, a_show_cover_pic = show_cover\<rparr>, n1 @ n2 @ n3)"
    using t a(1) d(1) by (simp add: draft_article_def)
  have "(digest = None \<or> digest = Some []) \<longrightarrow> truncate_by_bytes title 54 = Inr d"
    using d(2) limit_digest_derived[OF tt t] by simp
  with art a d show ?thesis by simp
qed

section \<open>Properties of the token cache\<close>

lemma fetch_token_sent:
  "sent (snd (fetch_token w)) = sent w @ [GetToken (self_appid w) (self_appsecret w)]"
  by (simp add: fetch_token_def send_def time_time_def Let_def
      split: reply.splits option.splits prod.splits)

lemma fetch_token_ok:
  assumes "server w (sent w @ [GetToken (self_appid w) (self_appsecret w)]) = Reply result"
    and "r_errcode result = None" and "r_access_token result = Some t"
  shows "fetch_token w =
           (Inr t, w\<lparr>sent := sent w @ [GetToken (self_appid w) (self_appsecret w)],
                     ticks := Suc (ticks w),
                     cache_file := Some (Cache (Some t)
                       (Some (clock w (ticks w)
                              + (case r_expires_in result of None \<Rightarrow> 7200 | Some e \<Rightarrow> e))))\<rparr>)"
  using assms by (simp add: fetch_token_def send_def time_time_def Let_def)

lemma fetch_token_Inr:
  assumes "fetch_token w = (Inr t, w')"
  shows "\<exists>result. server w (sent w') = Reply result \<and> r_errcode result = None
           \<and> r_access_token result = Some t
           \<and> sent w' = sent w @ [GetToken (self_appid w) (self_appsecret w)]
           \<and> ticks w' = Suc (ticks w)
           \<and> cache_file w' = Some (Cache (Some t)
                (Some (clock w (ticks w)
                       + (case r_expires_in result of None \<Rightarrow> 7200 | Some e \<Rightarrow> e))))"
  using assms
  by (auto simp: fetch_token_def send_def time_time_def Let_def
      split: reply.splits option.splits)

lemma fetch_token_errcode:
  assumes "server w (sent w @ [GetToken (self_appid w) (self_appsecret w)]) = Reply result"
    and "r_errcode result = Some c"
  shows "fetch_token w =
           (Inl (ApiError TokenCtx c),
            w\<lparr>sent := sent w @ [GetToken (self_appid w) (self_appsecret w)]\<rparr>)"
  using assms by (simp add: fetch_token_def send_def)

lemma read_cache_frame:
  "read_cache w = (r, w1) \<Longrightarrow>
     sent w1 = sent w \<and> server w1 = server w \<and> self_appid w1 = self_appid w
     \<and> self_appsecret w1 = self_appsecret w \<and> clock w1 = clock w
     \<and> exists_file w1 = exists_file w \<and> self_author w1 = self_author w
     \<and> printed w1 = printed w \<and> cache_file w1 = cache_file w"
  by (auto simp: read_cache_def time_time_def Let_def split: option.splits cache.splits if_splits)

lemma fetch_token_frame:
  "fetch_token w = (r, w1) \<Longrightarrow>
     server w1 = server w \<and> self_appid w1 = self_appid w
     \<and> self_appsecret w1 = self_appsecret w \<and> clock w1 = clock w
     \<and> exists_file w1 = exists_file w \<and> self_author w1 = self_author w
     \<and> printed w1 = printed w"
  by (auto simp: fetch_token_def send_def time_time_def Let_def
      split: reply.splits option.splits)

lemma get_access_token_frame:
  assumes "get_access_token force w = (r, w1)"
  shows "server w1 = server w \<and> self_appid w1 = self_appid w
     \<and> self_appsecret w1 = self_appsecret w \<and> clock w1 = clock w
     \<and> exists_file w1 = exists_file w \<and> self_author w1 = self_author w
     \<and> printed w1 = printed w"
proof (cases "\<not> force \<and> cache_file w \<noteq> None")
  case False
  with assms have "fetch_token w = (r, w1)" by (auto simp: get_access_token_def)
  from fetch_token_frame[OF this] show ?thesis .
next
  case True
  obtain c w0 where rc: "read_cache w = (c, w0)" by (cases "read_cache w")
  note f0 = read_cache_frame[OF rc]
  show ?thesis
  proof (cases c)
    case None
    with True rc assms have "fetch_token w0 = (r, w1)" by (simp add: get_access_token_def)
    from fetch_token_frame[OF this] f0 show ?thesis by simp
  next
    case (Some t)
    with True rc assms have "w1 = w0" by (simp add: get_access_token_def)
    with f0 show ?thesis by simp
  qed
qed

lemma get_access_token_sent:
  assumes "get_access_token force w = (r, w1)"
  shows "sent w1 = sent w \<or> sent w1 = sent w @ [GetToken (self_appid w) (self_appsecret w)]"
proof (cases "\<not> force \<and> cache_file w \<noteq> None")
  case False
  with assms have "fetch_token w = (r, w1)" by (auto simp: get_access_token_def)
  with fetch_token_sent[of w] show ?thesis by simp
next
  case True
  obtain c w0 where rc: "read_cache w = (c, w0)" by (cases "read_cache w")
  note f0 = read_cache_frame[OF rc]
  show ?thesis
  proof (cases c)
    case None
    with True rc assms have "fetch_token w0 = (r, w1)" by (simp add: get_access_token_def)
    with fetch_token_sent[of w0] f0 show ?thesis by simp
  next
    case (Some t)
    with True rc assms have "w1 = w0" by (simp add: get_access_token_def)
    with f0 show ?thesis by simp
  qed
qed

lemma get_access_token_forced:
  "get_access_token True w = fetch_token w"
  by (simp add: get_access_token_def)

text \<open>
  C2. Without \<^verbatim>\<open>force_refresh\<close>: a cache holding a token whose \<^verbatim>\<open>expires_at - 300\<close> lies
  after the clock reading is answered from the cache, and nothing but the clock changes
  (no request is sent); a readable cache inside the margin or past it leads to one token
  request; and whenever a call returns a token after sending a request, that token is
  the server's and the cache then holds it with expiry = the clock reading taken when
  persisting plus the server's \<^verbatim>\<open>expires_in\<close> (7200 when missing).
\<close>

theorem token_cache_rule:
  "(cache_file w = Some (Cache (Some tok) ex)
      \<and> clock w (ticks w) < (case ex of None \<Rightarrow> 0 | Some e \<Rightarrow> e) - 300
     \<longrightarrow> get_access_token False w = (Inr tok, w\<lparr>ticks := Suc (ticks w)\<rparr>))
   \<and> (cache_file w = Some (Cache tk ex)
      \<and> \<not> clock w (ticks w) < (case ex of None \<Rightarrow> 0 | Some e \<Rightarrow> e) - 300
     \<longrightarrow> sent (snd (get_access_token False w))
           = sent w @ [GetToken (self_appid w) (self_appsecret w)])
   \<and> (get_access_token force w = (Inr t, w') \<and> sent w' \<noteq> sent w
     \<longrightarrow> (\<exists>result k. server w (sent w') = Reply result \<and> r_access_token result = Some t
            \<and> sent w' = sent w @ [GetToken (self_appid w) (self_appsecret w)]
            \<and> ticks w' = Suc k
            \<and> cache_file w' = Some (Cache (Some t)
                 (Some (clock w k
                        + (case r_expires_in result of None \<Rightarrow> 7200 | Some e \<Rightarrow> e))))))"
proof -
  have a: "cache_file w = Some (Cache (Some tok) ex)
      \<and> clock w (ticks w) < (case ex of None \<Rightarrow> 0 | Some e \<Rightarrow> e) - 300
     \<longrightarrow> get_access_token False w = (Inr tok, w\<lparr>ticks := Suc (ticks w)\<rparr>)"
    by (simp add: get_access_token_def read_cache_def time_time_def)
  have b: "cache_file w = Some (Cache tk ex)
      \<and> \<not> clock w (ticks w) < (case ex of None \<Rightarrow> 0 | Some e \<Rightarrow> e) - 300
     \<longrightarrow> sent (snd (get_access_token False w))
           = sent w @ [GetToken (self_appid w) (self_appsecret w)]"
    by (simp add: get_access_token_def read_cache_def time_time_def fetch_token_sent)
  have c: "\<exists>result k. server w (sent w') = Reply result \<and> r_access_token result = Some t
            \<and> sent w' = sent w @ [GetToken (self_appid w) (self_appsecret w)]
            \<and> ticks w' = Suc k
            \<and> cache_file w' = Some (Cache (Some t)
                 (Some (clock w k
                        + (case r_expires_in result of None \<Rightarrow> 7200 | Some e \<Rightarrow> e))))"
    if g: "get_access_token force w = (Inr t, w')" and s: "sent w' \<noteq> sent w"
  proof (cases "\<not> force \<and> cache_file w \<noteq> None")
    case False
    with g have "fetch_token w = (Inr t, w')" by (auto simp: get_access_token_def)
    from fetch_token_Inr[OF this] show ?thesis by auto
  next
    case True
    obtain c w0 where rc: "read_cache w = (c, w0)" by (cases "read_cache w")
    note f0 = read_cache_frame[OF rc]
    show ?thesis
    proof (cases c)
      case None
      with True rc g have "fetch_token w0 = (Inr t, w')" by (simp add: get_access_token_def)
      from fetch_token_Inr[OF this] f0 show ?thesis by auto
    next
      case (Some t0)
      with True rc g have "w' = w0" by (simp add: get_access_token_def)
      with f0 s show ?thesis by simp
    qed
  qed
  from a b c show ?thesis by blast
qed

section \<open>Upload and submission\<close>

lemma failed_iff: "failed result \<longleftrightarrow> (\<exists>c. r_errcode result = Some c \<and> c \<noteq> 0)"
  by (simp add: failed_def split: option.splits)

lemma upload_image_reply:
  assumes ex: "exists_file w p" and tok: "get_access_token False w = (Inr tok, w1)"
    and rep: "server w (sent w1 @ [PostImage tok p]) = Reply result"
  shows "upload_image p w =
           (if failed result then Inl (ApiError UploadCtx (the (r_errcode result)))
            else Inr (r_media_id result, case r_url result of None \<Rightarrow> [] | Some u \<Rightarrow> u),
            w1\<lparr>sent := sent w1 @ [PostImage tok p]\<rparr>)"
proof -
  from get_access_token_frame[OF tok] have "server w1 = server w" by simp
  with rep have "server w1 (sent w1 @ [PostImage tok p]) = Reply result" by simp
  then show ?thesis
    using ex tok by (simp add: upload_image_def send_def failed_def split: option.splits)
qed

lemma upload_image_sent:
  "filter is_post_draft (sent (snd (upload_image p w))) = filter is_post_draft (sent w)"
proof (cases "exists_file w p")
  case False
  then show ?thesis by (simp add: upload_image_def)
next
  case True
  obtain r w1 where g: "get_access_token False w = (r, w1)"
    by (cases "get_access_token False w")
  from get_access_token_sent[OF g]
  have s1: "filter is_post_draft (sent w1) = filter is_post_draft (sent w)" by auto
  show ?thesis
    using True g s1
    by (auto simp: upload_image_def send_def Let_def
        split: sum.splits reply.splits option.splits prod.splits)
qed

lemma upload_image_frame:
  assumes "upload_image p w = (r, w1)"
  shows "server w1 = server w \<and> self_appid w1 = self_appid w
     \<and> self_appsecret w1 = self_appsecret w \<and> clock w1 = clock w
     \<and> exists_file w1 = exists_file w \<and> self_author w1 = self_author w
     \<and> printed w1 = printed w"
proof (cases "exists_file w p")
  case False
  with assms show ?thesis by (simp add: upload_image_def)
next
  case True
  obtain r0 w0 where g: "get_access_token False w = (r0, w0)"
    by (cases "get_access_token False w")
  from get_access_token_frame[OF g] assms True g show ?thesis
    by (auto simp: upload_image_def send_def Let_def
        split: sum.splits reply.splits option.splits prod.splits if_splits)
qed

lemma submit_draft_ok:
  assumes tok: "get_access_token False w = (Inr tok, w1)"
    and rep: "server w (sent w1 @ [PostDraft tok art]) = Reply result"
    and ok: "\<not> failed result"
  shows "submit_draft art w = (Inr result, w1\<lparr>sent := sent w1 @ [PostDraft tok art]\<rparr>)"
proof -
  from get_access_token_frame[OF tok] rep
  have "server w1 (sent w1 @ [PostDraft tok art]) = Reply result" by simp
  then show ?thesis using tok ok by (simp add: submit_draft_def send_def)
qed

lemma submit_draft_fail:
  assumes tok: "get_access_token False w = (Inr tok, w1)"
    and rep: "server w (sent w1 @ [PostDraft tok art]) = Reply result"
    and c: "r_errcode result = Some c" "c \<noteq> 0" "c \<noteq> 40001" "c \<noteq> 42001"
  shows "submit_draft art w =
           (Inl (ApiError DraftCtx c), w1\<lparr>sent := sent w1 @ [PostDraft tok art]\<rparr>)"
proof -
  from get_access_token_frame[OF tok] rep
  have "server w1 (sent w1 @ [PostDraft tok art]) = Reply result" by simp
  then show ?thesis using tok c by (simp add: submit_draft_def send_def failed_def)
qed

lemma submit_draft_retry:
  assumes tok: "get_access_token False w = (Inr tok, w1)"
    and rep: "server w (sent w1 @ [PostDraft tok art]) = Reply result"
    and c: "r_errcode result = Some c" "c = 40001 \<or> c = 42001"
  shows "submit_draft art w =
           (case get_access_token True (w1\<lparr>sent := sent w1 @ [PostDraft tok art]\<rparr>) of
              (Inl e, w3) \<Rightarrow> (Inl e, w3)
            | (Inr tok', w3) \<Rightarrow>
                (case server w (sent w3 @ [PostDraft tok' art]) of
                   NoReply \<Rightarrow> Inl RequestError
                 | Reply result' \<Rightarrow>
                     if failed result' then Inl (ApiError DraftCtx (the (r_errcode result')))
                     else Inr result',
                 w3\<lparr>self_access_token := Some tok', sent := sent w3 @ [PostDraft tok' art]\<rparr>))"
proof -
  let ?w2 = "w1\<lparr>sent := sent w1 @ [PostDraft tok art]\<rparr>"
  from get_access_token_frame[OF tok] have s1: "server w1 = server w" by simp
  with rep have r1: "server w1 (sent w1 @ [PostDraft tok art]) = Reply result" by simp
  obtain r3 w3 where g3: "get_access_token True ?w2 = (r3, w3)"
    by (cases "get_access_token True ?w2")
  from get_access_token_frame[OF g3] s1 have s3: "server w3 = server w" by simp
  have f: "failed result" using c by (auto simp: failed_def)
  show ?thesis
    using tok r1 c f g3 s3
    by (auto simp: submit_draft_def send_def Let_def split: sum.splits reply.splits)
qed

lemma submit_draft_count:
  "length (filter is_post_draft (sent (snd (submit_draft art w))))
     \<le> length (filter is_post_draft (sent w)) + 2"
proof -
  obtain r1 w1 where g1: "get_access_token False w = (r1, w1)"
    by (cases "get_access_token False w")
  from get_access_token_sent[OF g1]
  have s1: "filter is_post_draft (sent w1) = filter is_post_draft (sent w)" by auto
  show ?thesis
  proof (cases r1)
    case (Inl e)
    with g1 s1 show ?thesis by (simp add: submit_draft_def)
  next
    case (Inr tok)
    let ?w2 = "w1\<lparr>sent := sent w1 @ [PostDraft tok art]\<rparr>"
    obtain r3 w3 where g3: "get_access_token True ?w2 = (r3, w3)"
      by (cases "get_access_token True ?w2")
    from get_access_token_sent[OF g3]
    have s3: "filter is_post_draft (sent w3) = filter is_post_draft (sent w) @ [PostDraft tok art]"
      using s1 by auto
    show ?thesis
      using g1 Inr g3 s1 s3
      by (auto simp: submit_draft_def send_def Let_def
          split: sum.splits reply.splits if_splits prod.splits)
  qed
qed

lemma replace_image_sent:
  "filter is_post_draft (sent (snd (replace_image base mt w))) = filter is_post_draft (sent w)"
  using upload_image_sent[of "Under base (group mt 2)" w]
  by (auto simp: replace_image_def Let_def split: sum.splits prod.splits)

lemma replace_image_frame:
  assumes "replace_image base mt w = (r, w1)"
  shows "server w1 = server w \<and> exists_file w1 = exists_file w
     \<and> self_author w1 = self_author w \<and> printed w1 = printed w"
proof -
  obtain r0 w0 where u: "upload_image (Under base (group mt 2)) w = (r0, w0)"
    by (cases "upload_image (Under base (group mt 2)) w")
  from upload_image_frame[OF u] assms u show ?thesis
    by (auto simp: replace_image_def Let_def split: sum.splits prod.splits if_splits)
qed

lemma sub_with_replace_image:
  "sub_with (replace_image base) segs w = (out, w1) \<Longrightarrow>
     filter is_post_draft (sent w1) = filter is_post_draft (sent w)
     \<and> server w1 = server w \<and> exists_file w1 = exists_file w
     \<and> self_author w1 = self_author w \<and> printed w1 = printed w"
proof (induction segs arbitrary: w out w1)
  case Nil
  then show ?case by simp
next
  case (Cons sg segs)
  show ?case
  proof (cases sg)
    case (Keep x)
    with Cons.prems obtain out' where "sub_with (replace_image base) segs w = (out', w1)"
      by (auto split: prod.splits)
    from Cons.IH[OF this] show ?thesis .
  next
    case (Hit mt)
    obtain r wa where ri: "replace_image base mt w = (r, wa)"
      by (cases "replace_image base mt w")
    with Hit Cons.prems obtain out' where "sub_with (replace_image base) segs wa = (out', w1)"
      by (auto split: prod.splits)
    from Cons.IH[OF this] replace_image_frame[OF ri] replace_image_sent[of base mt w] ri
    show ?thesis by simp
  qed
qed

lemma create_draft_count:
  "length (filter is_post_draft
      (sent (snd (create_draft title content author thumb digest show_cover base w))))
     \<le> length (filter is_post_draft (sent w)) + 2"
proof -
  let ?cover = "(if (thumb = None \<or> thumb = Some []) \<and> exists_file w DefaultCover
            then (case upload_image DefaultCover w of
                    (Inl e, w0) \<Rightarrow> (Inl e, w0)
                  | (Inr (media_id, url), w0) \<Rightarrow> (Inr media_id, w0))
            else (Inr thumb, w))"
  obtain r0 w0 where c0: "?cover = (r0, w0)" by (cases ?cover)
  have s0: "filter is_post_draft (sent w0) = filter is_post_draft (sent w)"
    using c0 upload_image_sent[of DefaultCover w]
    by (auto split: if_splits sum.splits prod.splits)
  show ?thesis
  proof (cases r0)
    case (Inl e)
    with c0 s0 show ?thesis by (simp add: create_draft_def)
  next
    case (Inr th)
    obtain c2 w1 where u: "upload_content_images (remove_cover_image content) base w0 = (c2, w1)"
      by (cases "upload_content_images (remove_cover_image content) base w0")
    from sub_with_replace_image[OF u[unfolded upload_content_images_def]]
    have s1: "filter is_post_draft (sent w1) = filter is_post_draft (sent w0)" by simp
    show ?thesis
    proof (cases "draft_article title (fix_wechat_editor_issues c2) author th digest show_cover
                     (self_author w1)")
      case (Inl e)
      with c0 Inr u s0 s1 show ?thesis by (simp add: create_draft_def)
    next
      case (Inr an)
      obtain art ns where an: "an = (art, ns)" by (cases an)
      have "create_draft title content author thumb digest show_cover base w
              = submit_draft art (w1\<lparr>printed := printed w1 @ ns\<rparr>)"
        using c0 \<open>r0 = Inr th\<close> u Inr an by (simp add: create_draft_def)
      with submit_draft_count[of art "w1\<lparr>printed := printed w1 @ ns\<rparr>"] s0 s1
      show ?thesis by simp
    qed
  qed
qed

text \<open>
  C3 (amended). When the first submission is answered with a nonzero error code \<open>c\<close>:
  for \<open>c\<close> 40001 or 42001 one forced token request follows; if it fails, its error is
  the result and nothing is resubmitted; if it returns a token, the same article is
  submitted once more with the new token and that reply decides the result (a failing
  second reply fails). For every other nonzero \<open>c\<close> the call fails at once with that
  code and sends nothing more. In every run \<open>submit_draft\<close>, and \<open>create_draft\<close> as a
  whole, add at most two submission requests to the log.
\<close>

theorem draft_retry_rule:
  "(get_access_token False w = (Inr tok, w1)
      \<and> server w (sent w1 @ [PostDraft tok art]) = Reply result
      \<and> r_errcode result = Some c \<and> c \<noteq> 0 \<longrightarrow>
      (c = 40001 \<or> c = 42001 \<longrightarrow>
         (case get_access_token True (w1\<lparr>sent := sent w1 @ [PostDraft tok art]\<rparr>) of
            (Inl e, w3) \<Rightarrow>
              submit_draft art w = (Inl e, w3)
              \<and> sent w3 = sent w1 @ [PostDraft tok art, GetToken (self_appid w) (self_appsecret w)]
          | (Inr tok', w3) \<Rightarrow>
              sent (snd (submit_draft art w))
                = sent w1 @ [PostDraft tok art, GetToken (self_appid w) (self_appsecret w),
                             PostDraft tok' art]
              \<and> fst (submit_draft art w)
                = (case server w (sent (snd (submit_draft art w))) of
                     NoReply \<Rightarrow> Inl RequestError
                   | Reply result' \<Rightarrow>
                       if failed result' then Inl (ApiError DraftCtx (the (r_errcode result')))
                       else Inr result')))
      \<and> (c \<noteq> 40001 \<and> c \<noteq> 42001 \<longrightarrow>
           submit_draft art w
             = (Inl (ApiError DraftCtx c), w1\<lparr>sent := sent w1 @ [PostDraft tok art]\<rparr>)))
   \<and> length (filter is_post_draft (sent (snd (submit_draft art w))))
       \<le> length (filter is_post_draft (sent w)) + 2
   \<and> length (filter is_post_draft
         (sent (snd (create_draft title content author thumb digest show_cover base w))))
       \<le> length (filter is_post_draft (sent w)) + 2"
proof -
  have retry: "(case get_access_token True (w1\<lparr>sent := sent w1 @ [PostDraft tok art]\<rparr>) of
            (Inl e, w3) \<Rightarrow>
              submit_draft art w = (Inl e, w3)
              \<and> sent w3 = sent w1 @ [PostDraft tok art, GetToken (self_appid w) (self_appsecret w)]
          | (Inr tok', w3) \<Rightarrow>
              sent (snd (submit_draft art w))
                = sent w1 @ [PostDraft tok art, GetToken (self_appid w) (self_appsecret w),
                             PostDraft tok' art]
              \<and> fst (submit_draft art w)
                = (case server w (sent (snd (submit_draft art w))) of
                     NoReply \<Rightarrow> Inl RequestError
                   | Reply result' \<Rightarrow>
                       if failed result' then Inl (ApiError DraftCtx (the (r_errcode result')))
                       else Inr result'))"
    if tok: "get_access_token False w = (Inr tok, w1)"
      and rep: "server w (sent w1 @ [PostDraft tok art]) = Reply result"
      and c: "r_errcode result = Some c" "c = 40001 \<or> c = 42001"
  proof -
    let ?w2 = "w1\<lparr>sent := sent w1 @ [PostDraft tok art]\<rparr>"
    obtain r3 w3 where g3: "get_access_token True ?w2 = (r3, w3)"
      by (cases "get_access_token True ?w2")
    from get_access_token_frame[OF tok]
    have id: "self_appid w1 = self_appid w" "self_appsecret w1 = self_appsecret w" by simp_all
    have "fetch_token ?w2 = (r3, w3)"
      using g3 by (simp add: get_access_token_forced)
    with fetch_token_sent[of ?w2] id
    have s3: "sent w3 = sent w1 @ [PostDraft tok art, GetToken (self_appid w) (self_appsecret w)]"
      by simp
    note sd = submit_draft_retry[OF tok rep c]
    show ?thesis
    proof (cases r3)
      case (Inl e)
      with g3 s3 sd show ?thesis by simp
    next
      case (Inr tok')
      with g3 s3 sd show ?thesis by simp
    qed
  qed
  show ?thesis
  proof (intro conjI impI; (elim conjE)?)
    show "length (filter is_post_draft (sent (snd (submit_draft art w))))
       \<le> length (filter is_post_draft (sent w)) + 2"
      by (rule submit_draft_count)
    show "length (filter is_post_draft
         (sent (snd (create_draft title content author thumb digest show_cover base w))))
       \<le> length (filter is_post_draft (sent w)) + 2"
      by (rule create_draft_count)
  qed (rule retry submit_draft_fail; assumption)+
qed

lemmas demo_defs = demo_state_def fresh_cache_def stale_cache_def token_reply_def error_reply_def
  ok_reply_def flaky_server_def quota_server_def zero_server_def retry_server_def demo_article_def

lemmas step_defs = get_access_token_def read_cache_def fetch_token_def send_def time_time_def
  upload_image_def submit_draft_def failed_def

theorem token_cache_rule_witness:
  "cache_file (demo_state fresh_cache zero_server) = Some (Cache (Some [0x54]) (Some 11000))
   \<and> clock (demo_state fresh_cache zero_server) (ticks (demo_state fresh_cache zero_server))
        < (case Some 11000 of None \<Rightarrow> 0 | Some e \<Rightarrow> e) - 300
   \<and> fst (get_access_token False (demo_state fresh_cache zero_server)) = Inr [0x54]
   \<and> sent (snd (get_access_token False (demo_state fresh_cache zero_server))) = []
   \<and> cache_file (demo_state stale_cache (\<lambda>reqs. token_reply [0x4E]))
        = Some (Cache (Some [0x54]) (Some 1100))
   \<and> \<not> clock (demo_state stale_cache (\<lambda>reqs. token_reply [0x4E]))
          (ticks (demo_state stale_cache (\<lambda>reqs. token_reply [0x4E])))
        < (case Some 1100 of None \<Rightarrow> 0 | Some e \<Rightarrow> e) - 300
   \<and> sent (snd (get_access_token False (demo_state stale_cache (\<lambda>reqs. token_reply [0x4E]))))
        = [GetToken (pys ''wx'') (pys ''s'')]
   \<and> fst (get_access_token False (demo_state stale_cache (\<lambda>reqs. token_reply [0x4E])))
        = Inr [0x4E]
   \<and> cache_file (snd (get_access_token False (demo_state stale_cache (\<lambda>reqs. token_reply [0x4E]))))
        = Some (Cache (Some [0x4E]) (Some 8200))"
proof -
  let ?f = "demo_state fresh_cache zero_server"
  let ?s = "demo_state stale_cache (\<lambda>reqs. token_reply [0x4E])"
  have f1: "cache_file ?f = Some (Cache (Some [0x54]) (Some 11000))"
    by (simp add: demo_defs)
  have f2: "clock ?f (ticks ?f) < (case Some 11000 of None \<Rightarrow> 0 | Some e \<Rightarrow> e) - 300"
    by (simp add: demo_defs)
  have s1: "cache_file ?s = Some (Cache (Some [0x54]) (Some 1100))"
    by (simp add: demo_defs)
  have s2: "\<not> clock ?s (ticks ?s) < (case Some 1100 of None \<Rightarrow> 0 | Some e \<Rightarrow> e) - 300"
    by (simp add: demo_defs)
  obtain r w' where g: "get_access_token False ?s = (r, w')"
    by (cases "get_access_token False ?s")
  have r: "r = Inr [0x4E]" and c: "cache_file w' = Some (Cache (Some [0x4E]) (Some 8200))"
    using g by (auto simp: step_defs demo_defs)
  note a = token_cache_rule[where w = ?f and tok = "[0x54]" and ex = "Some 11000", THEN conjunct1, rule_format, OF conjI, OF f1 f2]
  note b = token_cache_rule[where w = ?s and tk = "Some [0x54]" and ex = "Some 1100", THEN conjunct2, THEN conjunct1,
      rule_format, OF conjI, OF s1 s2]
  have ne: "sent w' \<noteq> sent ?s"
    using b g by (simp add: demo_defs)
  note d = token_cache_rule[where w = ?s and force = False and t = "[0x4E]" and w' = w', THEN conjunct2, THEN conjunct2,
      rule_format, OF conjI, OF g[unfolded r] ne]
  from a b d f1 f2 s1 s2 g r c show ?thesis
    by (simp add: demo_defs)
qed

lemma fetch_token_error_kind:
  "fetch_token w = (Inl e, w') \<Longrightarrow> e \<noteq> ApiError DraftCtx c"
  by (auto simp: fetch_token_def send_def time_time_def Let_def
      split: reply.splits option.splits)

lemma get_access_token_error_kind:
  assumes "get_access_token force w = (Inl e, w')"
  shows "e \<noteq> ApiError DraftCtx c"
proof (cases "\<not> force \<and> cache_file w \<noteq> None")
  case False
  with assms have "fetch_token w = (Inl e, w')" by (auto simp: get_access_token_def)
  then show ?thesis by (rule fetch_token_error_kind)
next
  case True
  obtain r w0 where rc: "read_cache w = (r, w0)" by (cases "read_cache w")
  with True assms have "fetch_token w0 = (Inl e, w')"
    by (cases r) (auto simp: get_access_token_def)
  then show ?thesis by (rule fetch_token_error_kind)
qed

lemma submit_draft_error_nonzero:
  assumes "fst (submit_draft art w) = Inl (ApiError DraftCtx c)"
  shows "c \<noteq> 0"
proof -
  obtain r1 w1 where g1: "get_access_token False w = (r1, w1)"
    by (cases "get_access_token False w")
  show ?thesis
  proof (cases r1)
    case (Inl e)
    with g1 assms get_access_token_error_kind[of False w e w1 c] show ?thesis
      by (simp add: submit_draft_def)
  next
    case (Inr tok)
    let ?w2 = "w1\<lparr>sent := sent w1 @ [PostDraft tok art]\<rparr>"
    obtain r3 w3 where g3: "get_access_token True ?w2 = (r3, w3)"
      by (cases "get_access_token True ?w2")
    have k: "r3 \<noteq> Inl (ApiError DraftCtx c)"
      using get_access_token_error_kind[of True ?w2 _ w3 c] g3 by auto
    show ?thesis
      using assms g1 Inr g3 k
      by (auto simp: submit_draft_def send_def failed_def Let_def
          split: reply.splits if_splits sum.splits option.splits)
  qed
qed

text \<open>
  C10. A token response with the key \<^verbatim>\<open>errcode\<close> makes \<^verbatim>\<open>get_access_token\<close> raise, whatever
  the value, 0 included. \<^verbatim>\<open>upload_image\<close> raises on a response exactly when \<^verbatim>\<open>errcode\<close> is
  present and nonzero, and otherwise returns the response's \<^verbatim>\<open>media_id\<close> and \<^verbatim>\<open>url\<close>. A
  submission answered without \<^verbatim>\<open>errcode\<close> or with \<^verbatim>\<open>errcode\<close> 0 succeeds with that response,
  and a submission error always carries a nonzero code.
\<close>

theorem errcode_success_criteria:
  "(server w (sent w @ [GetToken (self_appid w) (self_appsecret w)]) = Reply result
      \<and> r_errcode result = Some c
     \<longrightarrow> fst (fetch_token w) = Inl (ApiError TokenCtx c)
         \<and> get_access_token True w = fetch_token w)
   \<and> (exists_file w p \<and> get_access_token False w = (Inr tok, w1)
      \<and> server w (sent w1 @ [PostImage tok p]) = Reply result
     \<longrightarrow> fst (upload_image p w)
           = (if \<exists>c. r_errcode result = Some c \<and> c \<noteq> 0
              then Inl (ApiError UploadCtx (the (r_errcode result)))
              else Inr (r_media_id result, case r_url result of None \<Rightarrow> [] | Some u \<Rightarrow> u)))
   \<and> (get_access_token False w = (Inr tok, w1)
      \<and> server w (sent w1 @ [PostDraft tok art]) = Reply result
      \<and> (r_errcode result = None \<or> r_errcode result = Some 0)
     \<longrightarrow> fst (submit_draft art w) = Inr result)
   \<and> (fst (submit_draft art w) = Inl (ApiError DraftCtx c) \<longrightarrow> c \<noteq> 0)"
proof (intro conjI impI; (elim conjE)?)
  assume "server w (sent w @ [GetToken (self_appid w) (self_appsecret w)]) = Reply result"
    and "r_errcode result = Some c"
  from fetch_token_errcode[OF this]
  show "fst (fetch_token w) = Inl (ApiError TokenCtx c)" by simp
next
  show "get_access_token True w = fetch_token w" by (rule get_access_token_forced)
next
  assume "exists_file w p" "get_access_token False w = (Inr tok, w1)"
    "server w (sent w1 @ [PostImage tok p]) = Reply result"
  from upload_image_reply[OF this]
  show "fst (upload_image p w)
           = (if \<exists>c. r_errcode result = Some c \<and> c \<noteq> 0
              then Inl (ApiError UploadCtx (the (r_errcode result)))
              else Inr (r_media_id result, case r_url result of None \<Rightarrow> [] | Some u \<Rightarrow> u))"
    by (simp add: failed_iff)
next
  assume "get_access_token False w = (Inr tok, w1)"
    "server w (sent w1 @ [PostDraft tok art]) = Reply result"
    "r_errcode result = None \<or> r_errcode result = Some 0"
  then show "fst (submit_draft art w) = Inr result"
    using submit_draft_ok[of w tok w1 art result] by (auto simp: failed_def)
next
  assume "fst (submit_draft art w) = Inl (ApiError DraftCtx c)"
  then show "c \<noteq> 0" by (rule submit_draft_error_nonzero)
qed

theorem errcode_success_criteria_witness:
  "server (demo_state None zero_server) (sent (demo_state None zero_server)
      @ [GetToken (self_appid (demo_state None zero_server))
           (self_appsecret (demo_state None zero_server))]) = ok_reply
   \<and> fst (get_access_token True (demo_state None zero_server)) = Inl (ApiError TokenCtx 0)
   \<and> fst (upload_image DefaultCover
        ((demo_state fresh_cache zero_server)\<lparr>exists_file := \<lambda>p. True\<rparr>))
        = Inr (Some [0x6D], [0x75])
   \<and> (\<exists>result. ok_reply = Reply result
        \<and> fst (submit_draft demo_article (demo_state fresh_cache zero_server)) = Inr result)
   \<and> fst (submit_draft demo_article (demo_state fresh_cache quota_server))
        = Inl (ApiError DraftCtx 45009)
   \<and> (45009::int) \<noteq> 0"
proof -
  let ?n = "demo_state None zero_server"
  let ?u = "(demo_state fresh_cache zero_server)\<lparr>exists_file := \<lambda>p. True\<rparr>"
  let ?z = "demo_state fresh_cache zero_server"
  let ?q = "demo_state fresh_cache quota_server"
  let ?r = "\<lparr>r_errcode = Some 0, r_access_token = Some [0x4E], r_expires_in = None,
                     r_media_id = Some [0x6D], r_url = Some [0x75]\<rparr>"
  have n1: "server ?n (sent ?n @ [GetToken (self_appid ?n) (self_appsecret ?n)]) = Reply ?r"
    by (simp add: demo_defs)
  have n2: "r_errcode ?r = Some 0" by simp
  note a = errcode_success_criteria[where w = ?n and result = ?r and c = 0, THEN conjunct1,
      rule_format, OF conjI, OF n1 n2]
  have u1: "exists_file ?u DefaultCover" by (simp add: demo_defs)
  have u2: "get_access_token False ?u = (Inr [0x54], ?u\<lparr>ticks := Suc 0\<rparr>)"
    by (simp add: step_defs demo_defs)
  have u3: "server ?u (sent (?u\<lparr>ticks := Suc 0\<rparr>) @ [PostImage [0x54] DefaultCover]) = Reply ?r"
    by (simp add: demo_defs)
  note b = errcode_success_criteria[where w = ?u and p = DefaultCover and result = ?r,
      THEN conjunct2, THEN conjunct1, rule_format, OF conjI, OF u1 conjI, OF u2 u3]
  have z2: "get_access_token False ?z = (Inr [0x54], ?z\<lparr>ticks := Suc 0\<rparr>)"
    by (simp add: step_defs demo_defs)
  have z3: "server ?z (sent (?z\<lparr>ticks := Suc 0\<rparr>) @ [PostDraft [0x54] demo_article]) = Reply ?r"
    by (simp add: demo_defs)
  have z4: "r_errcode ?r = None \<or> r_errcode ?r = Some 0" by simp
  note c = errcode_success_criteria[where w = ?z and art = demo_article and result = ?r,
      THEN conjunct2, THEN conjunct2, THEN conjunct1, rule_format, OF conjI, OF z2 conjI, OF z3 z4]
  have q: "fst (submit_draft demo_article ?q) = Inl (ApiError DraftCtx 45009)"
    by (simp add: step_defs demo_defs)
  note d = errcode_success_criteria[where w = ?q and art = demo_article and c = 45009,
      THEN conjunct2, THEN conjunct2, THEN conjunct2, rule_format, OF q]
  from a b c d n1 q show ?thesis
    by (simp add: ok_reply_def)
qed

lemmas regex_defs = cat_def pys_def chr_def dq_def sq_def not_gt_def quote_def not_quote_def
  not_dq_def not_semi_def az_dash_def cover_word_def title_word_def cover_src_pattern_def
  cover_attr_pattern_def cover_patterns_def comment_img_pattern_def img_pattern_def
  gap_pattern_def decl_pattern_def style_pattern_def strip_pattern_def match_at_def

lemma normalise_empty:
  "remove_cover_image [] = []" "fix_wechat_editor_issues [] = []"
  "upload_content_images [] base w = ([], w)"
  by (simp_all add: remove_cover_image_def fix_wechat_editor_issues_def
      upload_content_images_def re_sub_def regex_defs)

text \<open>
  C3 as stated fails: the first submission is answered with 42001, the forced token
  request is answered with an error, and \<open>create_draft\<close> fails with the token error after
  one submission, without resubmitting.
\<close>

theorem draft_retry_counterexample:
  "server (demo_state fresh_cache retry_server) [PostDraft [0x54] demo_article] = error_reply 42001
   \<and> fst (create_draft [0x61] [] (Some []) (Some [0x6D]) (Some [0x64]) 1 []
            (demo_state fresh_cache retry_server))
        = Inl (ApiError TokenCtx 40164)
   \<and> sent (snd (create_draft [0x61] [] (Some []) (Some [0x6D]) (Some [0x64]) 1 []
            (demo_state fresh_cache retry_server)))
        = [PostDraft [0x54] demo_article, GetToken (pys ''wx'') (pys ''s'')]"
proof -
  have d: "draft_article [0x61] [] (Some []) (Some [0x6D]) (Some [0x64]) 1 [] = Inr (demo_article, [])"
    by (simp add: draft_article_def limit_title_def limit_author_def limit_digest_def
        truncate_by_bytes_def encode_cp_def demo_article_def)
  have c: "create_draft [0x61] [] (Some []) (Some [0x6D]) (Some [0x64]) 1 []
            (demo_state fresh_cache retry_server)
        = submit_draft demo_article (demo_state fresh_cache retry_server)"
    by (simp add: create_draft_def normalise_empty d demo_state_def)
  have s: "submit_draft demo_article (demo_state fresh_cache retry_server)
        = (Inl (ApiError TokenCtx 40164),
           (demo_state fresh_cache retry_server)
             \<lparr>ticks := Suc 0, sent := [PostDraft [0x54] demo_article, GetToken (pys ''wx'') (pys ''s'')]\<rparr>)"
    by (simp add: step_defs demo_state_def fresh_cache_def retry_server_def error_reply_def)
  show ?thesis
    unfolding c s by (simp add: demo_state_def retry_server_def)
qed

theorem draft_retry_rule_witness:
  "get_access_token False (demo_state fresh_cache flaky_server)
     = (Inr [0x54], (demo_state fresh_cache flaky_server)\<lparr>ticks := Suc 0\<rparr>)
   \<and> server (demo_state fresh_cache flaky_server) [PostDraft [0x54] demo_article]
     = error_reply 42001
   \<and> sent (snd (submit_draft demo_article (demo_state fresh_cache flaky_server)))
     = [PostDraft [0x54] demo_article, GetToken (pys ''wx'') (pys ''s''),
        PostDraft [0x4E] demo_article]
   \<and> Reply (projr (fst (submit_draft demo_article (demo_state fresh_cache flaky_server))))
     = ok_reply
   \<and> server (demo_state fresh_cache quota_server) [PostDraft [0x54] demo_article]
     = error_reply 45009
   \<and> submit_draft demo_article (demo_state fresh_cache quota_server)
     = (Inl (ApiError DraftCtx 45009),
        (demo_state fresh_cache quota_server)
          \<lparr>ticks := Suc 0, sent := [PostDraft [0x54] demo_article]\<rparr>)"
proof -
  let ?f = "demo_state fresh_cache flaky_server"
  let ?q = "demo_state fresh_cache quota_server"
  let ?e = "\<lambda>c. \<lparr>r_errcode = Some c, r_access_token = None, r_expires_in = None,
                          r_media_id = None, r_url = None\<rparr>"
  have f1: "get_access_token False ?f = (Inr [0x54], ?f\<lparr>ticks := Suc 0\<rparr>)"
    by (simp add: step_defs demo_defs)
  have f2: "server ?f (sent (?f\<lparr>ticks := Suc 0\<rparr>) @ [PostDraft [0x54] demo_article])
              = Reply (?e 42001)"
    by (simp add: demo_state_def flaky_server_def error_reply_def)
  have f3: "r_errcode (?e 42001) = Some 42001" by simp
  have f4: "(42001::int) \<noteq> 0" by simp
  have g: "get_access_token True (?f\<lparr>ticks := Suc 0, sent := sent (?f\<lparr>ticks := Suc 0\<rparr>) @ [PostDraft [0x54] demo_article]\<rparr>)
     = (Inr [0x4E], ?f\<lparr>ticks := Suc (Suc 0),
          sent := [PostDraft [0x54] demo_article, GetToken (pys ''wx'') (pys ''s'')],
          cache_file := Some (Cache (Some [0x4E]) (Some 8200))\<rparr>)"
    by (simp add: step_defs demo_state_def flaky_server_def token_reply_def)
  have q1: "get_access_token False ?q = (Inr [0x54], ?q\<lparr>ticks := Suc 0\<rparr>)"
    by (simp add: step_defs demo_defs)
  have q2: "server ?q (sent (?q\<lparr>ticks := Suc 0\<rparr>) @ [PostDraft [0x54] demo_article])
              = Reply (?e 45009)"
    by (simp add: demo_state_def quota_server_def error_reply_def)
  have q3: "r_errcode (?e 45009) = Some 45009" by simp
  have q4: "(45009::int) \<noteq> 0" by simp
  have q5: "(45009::int) \<noteq> 40001 \<and> (45009::int) \<noteq> 42001" by simp
  note a = draft_retry_rule[where w = ?f and tok = "[0x54]" and art = demo_article
      and result = "?e 42001" and c = 42001 and ?w1.0 = "?f\<lparr>ticks := Suc 0\<rparr>", THEN conjunct1]
  note b = draft_retry_rule[where w = ?q and tok = "[0x54]" and art = demo_article
      and result = "?e 45009" and c = 45009 and ?w1.0 = "?q\<lparr>ticks := Suc 0\<rparr>", THEN conjunct1]
  have fs: "sent ?f = []" "self_appid ?f = pys ''wx''" "self_appsecret ?f = pys ''s''"
    "sent ?q = []" "server ?f = flaky_server"
    by (simp_all add: demo_state_def)
  have last: "flaky_server [PostDraft [0x54] demo_article, GetToken (pys ''wx'') (pys ''s''),
        PostDraft [0x4E] demo_article] = ok_reply"
    by (simp add: flaky_server_def)
  from a f1 f2 f3 f4 g
  have a': "sent (snd (submit_draft demo_article ?f))
     = [PostDraft [0x54] demo_article, GetToken (pys ''wx'') (pys ''s''),
        PostDraft [0x4E] demo_article]
     \<and> fst (submit_draft demo_article ?f)
       = (case server ?f (sent (snd (submit_draft demo_article ?f))) of
                     NoReply \<Rightarrow> Inl RequestError
                   | Reply result' \<Rightarrow>
                       if failed result' then Inl (ApiError DraftCtx (the (r_errcode result')))
                       else Inr result')"
    by (simp add: fs)
  then have a'': "Reply (projr (fst (submit_draft demo_article ?f))) = ok_reply"
    by (simp add: fs last) (simp add: ok_reply_def failed_def)
  from b q1 q2 q3 q4 q5
  have b': "submit_draft demo_article ?q
     = (Inl (ApiError DraftCtx 45009), ?q\<lparr>ticks := Suc 0, sent := [PostDraft [0x54] demo_article]\<rparr>)"
    by (simp add: fs)
  from f1 f2 q2 a' a'' b' show ?thesis
    by (simp add: fs error_reply_def)
qed

theorem digest_and_author_limits_witness:
  "encode_utf8 [0x4E2D, 0x6587] = Inr [0xE4, 0xB8, 0xAD, 0xE6, 0x96, 0x87]
   \<and> encode_utf8 (case None of None \<Rightarrow> [0x59] | Some a \<Rightarrow> a) = Inr [0x59]
   \<and> encode_utf8 (case None of None \<Rightarrow> [] | Some d \<Rightarrow> d) = Inr []
   \<and> (\<exists>art ns. draft_article [0x4E2D, 0x6587] [] None None None 1 [0x59] = Inr (art, ns)
         \<and> truncate_by_bytes [0x4E2D, 0x6587] 54 = Inr (a_digest art)
         \<and> a_digest art = [0x4E2D, 0x6587] \<and> a_author art = [0x59])
   \<and> encode_utf8 (case Some [0x64] of None \<Rightarrow> [] | Some d \<Rightarrow> d) = Inr [0x64]
   \<and> (\<exists>art ns. draft_article [0x4E2D, 0x6587] [] None None (Some [0x64]) 1 [0x59] = Inr (art, ns)
         \<and> truncate_by_bytes [0x64] 120 = Inr (a_digest art)
         \<and> a_digest art = [0x64])"
proof -
  have t: "encode_utf8 [0x4E2D, 0x6587] = Inr [0xE4, 0xB8, 0xAD, 0xE6, 0x96, 0x87]"
    by (simp add: encode_cp_def)
  have a: "encode_utf8 (case None of None \<Rightarrow> [0x59] | Some a \<Rightarrow> a) = Inr [0x59]"
    by (simp add: encode_cp_def)
  have d1: "encode_utf8 (case None of None \<Rightarrow> [] | Some d \<Rightarrow> d) = Inr []"
    by simp
  have d2: "encode_utf8 (case Some [0x64] of None \<Rightarrow> [] | Some d \<Rightarrow> d) = Inr [0x64]"
    by (simp add: encode_cp_def)
  have v1: "truncate_by_bytes [0x4E2D, 0x6587] 54 = Inr [0x4E2D, 0x6587]"
    by (simp add: truncate_by_bytes_def encode_cp_def)
  have v2: "truncate_by_bytes [0x64] 120 = Inr [0x64]"
    by (simp add: truncate_by_bytes_def encode_cp_def)
  have v3: "truncate_by_bytes [0x59] 20 = Inr [0x59]"
    by (simp add: truncate_by_bytes_def encode_cp_def)
  from digest_and_author_limits[OF t a d1, of "[]" None 1]
       digest_and_author_limits[OF t a d2, of "[]" None 1] t a d1 d2 v1 v2 v3
  show ?thesis
    by auto
qed

text \<open>
  C6. A title of 65 code points U+1F600 (four bytes each): the draft sent carries the
  first 64 of them, 256 bytes.
\<close>

theorem title_bytes_over_limit:
  "\<exists>art bs. sent (snd (create_draft (replicate 65 0x1F600) [] (Some []) (Some [0x6D])
                          (Some [0x64]) 1 [] (demo_state fresh_cache zero_server)))
               = [PostDraft [0x54] art]
     \<and> a_title art = replicate 64 0x1F600
     \<and> encode_utf8 (a_title art) = Inr bs \<and> length bs = 256"
proof -
  let ?art = "\<lparr>a_title = replicate 64 0x1F600, a_author = [], a_digest = [0x64], a_content = [],
                a_thumb_media_id = Some [0x6D], a_show_cover_pic = 1\<rparr>"
  have e: "encode_cp 0x1F600 = Inr [0xF0, 0x9F, 0x98, 0x80]"
    by (simp add: encode_cp_def)
  have t: "limit_title (replicate 65 0x1F600) = Inr (replicate 64 0x1F600, [TitleCharsWarning])"
    by (simp add: limit_title_def encode_utf8_replicate[OF e] min_def)
  have d: "draft_article (replicate 65 0x1F600) [] (Some []) (Some [0x6D]) (Some [0x64]) 1 []
             = Inr (?art, [TitleCharsWarning])"
    by (simp add: draft_article_def t limit_author_def limit_digest_def
        truncate_by_bytes_def encode_cp_def)
  have c: "create_draft (replicate 65 0x1F600) [] (Some []) (Some [0x6D]) (Some [0x64]) 1 []
            (demo_state fresh_cache zero_server)
        = submit_draft ?art ((demo_state fresh_cache zero_server)\<lparr>printed := [TitleCharsWarning]\<rparr>)"
    by (simp add: create_draft_def normalise_empty d demo_state_def)
  have s: "sent (snd (submit_draft ?art
              ((demo_state fresh_cache zero_server)\<lparr>printed := [TitleCharsWarning]\<rparr>)))
        = [PostDraft [0x54] ?art]"
    by (simp add: step_defs demo_defs)
  have l: "length (concat (replicate 64 [0xF0, 0x9F, 0x98, 0x80 :: byte])) = 256"
    by (simp add: length_concat sum_list_replicate)
  show ?thesis
    using c s encode_utf8_replicate[OF e, of 64] l by auto
qed

end
